theory Spec2Isabelle
  imports Main
begin

section \<open>Strings and the regular expressions of the link router\<close>

text \<open>
  A JavaScript string is a sequence of UTF-16 code units; a code unit is modelled as a
  natural number and a string as a list of them. \<open>str\<close> reads an ASCII literal.
\<close>

type_synonym jsstring = "nat list"

definition str :: "string \<Rightarrow> jsstring" where
  "str s = map of_char s"

text \<open>
  The class \<open>\s\<close> of ECMAScript: WhiteSpace and LineTerminator code points
  (TAB, LF, VT, FF, CR, SP, NBSP, U+1680, U+2000 to U+200A, U+2028, U+2029, U+202F,
  U+205F, U+3000, U+FEFF).
\<close>

definition isWhiteSpace :: "nat \<Rightarrow> bool" where
  "isWhiteSpace c \<longleftrightarrow>
     c \<in> set [9, 10, 11, 12, 13, 32, 160, 5760, 8232, 8233, 8239, 8287, 12288, 65279]
     \<or> (8192 \<le> c \<and> c \<le> 8202)"

text \<open>
  Canonicalization under the \<open>i\<close> flag (without \<open>u\<close>): a code unit is compared through its
  upper-case form, and a code unit outside ASCII never canonicalizes to an ASCII one. All
  pattern characters of this program are ASCII, so only the ASCII letters matter.
\<close>

definition canonicalize :: "nat \<Rightarrow> nat" where
  "canonicalize c = (if 97 \<le> c \<and> c \<le> 122 then c - 32 else c)"

datatype citem = Ch nat | WhiteSpace

fun in_item :: "nat \<Rightarrow> citem \<Rightarrow> bool" where
  "in_item c (Ch k) = (canonicalize c = canonicalize k)"
| "in_item c WhiteSpace = isWhiteSpace c"

text \<open>
  The fragment of regular-expression syntax that the three patterns of the source use:
  a literal character, a negated character class \<open>[^...]\<close>, sequence, alternative,
  the greedy quantifiers \<open>?\<close> and \<open>*\<close> (and \<open>+\<close>, as one iteration followed by \<open>*\<close>).
\<close>

datatype regex =
    Eps
  | Lit nat
  | NoneOf "citem list"
  | Then regex regex
  | Or regex regex
  | Opt regex
  | Many regex

text \<open>
  The backtracking matcher. \<open>matcher rx s\<close> lists, in the order in which the engine tries
  them, the remainders of \<open>s\<close> that are left when \<open>rx\<close> has matched at the start of \<open>s\<close>;
  the engine takes the first one that lets the rest of the pattern succeed. As in
  ECMAScript, an iteration of \<open>?\<close> or \<open>*\<close> that consumes nothing is rejected.
\<close>

fun matcher :: "regex \<Rightarrow> jsstring \<Rightarrow> jsstring list" where
  "matcher Eps s = [s]"
| "matcher (Lit k) s =
     (case s of [] \<Rightarrow> [] | c # t \<Rightarrow> if canonicalize c = canonicalize k then [t] else [])"
| "matcher (NoneOf items) s =
     (case s of [] \<Rightarrow> [] | c # t \<Rightarrow> if list_ex (in_item c) items then [] else [t])"
| "matcher (Then a b) s = concat (map (matcher b) (matcher a s))"
| "matcher (Or a b) s = matcher a s @ matcher b s"
| "matcher (Opt a) s = filter (\<lambda>r. length r < length s) (matcher a s) @ [s]"
| "matcher (Many a) s =
     concat (map (\<lambda>r. if length r < length s then matcher (Many a) r else []) (matcher a s))
     @ [s]"

lemmas matcher_Many = matcher.simps(7)
declare matcher.simps(7) [simp del]

definition Many1 :: "regex \<Rightarrow> regex" where
  "Many1 a = Then a (Many a)"

fun lits :: "jsstring \<Rightarrow> regex" where
  "lits [] = Eps"
| "lits (c # cs) = Then (Lit c) (lits cs)"

text \<open>
  \<^verbatim>\<open>const URL_REGEX = /https?:\/\/[^\s<>"{}|\\^`[\]]+/gi;\<close>
  The class excludes white space and the characters with the codes
  60 \<open><\<close>, 62 \<open>>\<close>, 34 (double quote), 123 \<open>{\<close>, 125 \<open>}\<close>, 124 \<open>|\<close>, 92 (backslash),
  94 \<open>^\<close>, 96 (backquote), 91 \<open>[\<close>, 93 \<open>]\<close>.
\<close>

definition URL_EXCLUDED :: "citem list" where
  "URL_EXCLUDED = [WhiteSpace, Ch 60, Ch 62, Ch 34, Ch 123, Ch 125, Ch 124, Ch 92,
                   Ch 94, Ch 96, Ch 91, Ch 93]"

definition URL_REGEX :: regex where
  "URL_REGEX =
     Then (lits (str ''http'')) (Then (Opt (Lit 115)) (Then (lits (str ''://''))
       (Many1 (NoneOf URL_EXCLUDED))))"

text \<open>
  \<^verbatim>\<open>const YOUTUBE_REGEX = /https?:\/\/(www\.)?(youtube\.com|youtu\.be|m\.youtube\.com)(\/\S*)?/i;\<close>
  \<^verbatim>\<open>const STEAM_REGEX = /https?:\/\/(store\.steampowered\.com)(\/\S*)?/i;\<close>
\<close>

definition YOUTUBE_REGEX :: regex where
  "YOUTUBE_REGEX =
     Then (lits (str ''http'')) (Then (Opt (Lit 115)) (Then (lits (str ''://''))
       (Then (Opt (lits (str ''www.'')))
         (Then (Or (lits (str ''youtube.com''))
                 (Or (lits (str ''youtu.be'')) (lits (str ''m.youtube.com''))))
            (Opt (Then (Lit 47) (Many (NoneOf [WhiteSpace]))))))))"

definition STEAM_REGEX :: regex where
  "STEAM_REGEX =
     Then (lits (str ''http'')) (Then (Opt (Lit 115)) (Then (lits (str ''://''))
       (Then (lits (str ''store.steampowered.com''))
          (Opt (Then (Lit 47) (Many (NoneOf [WhiteSpace])))))))"

text \<open>
  \<open>RegExp.prototype.test\<close> of a pattern without the \<open>g\<close> and \<open>y\<close> flags: the match is
  tried at every start position from the left, the end of the string included.
\<close>

fun regex_test :: "regex \<Rightarrow> jsstring \<Rightarrow> bool" where
  "regex_test rx s =
     (if matcher rx s \<noteq> [] then True
      else (case s of [] \<Rightarrow> False | _ # t \<Rightarrow> regex_test rx t))"

declare regex_test.simps [simp del]

text \<open>
  One run of the engine from the start of \<open>s\<close>: the leftmost match, as the pair of the
  matched text and what follows it.
\<close>

fun find_first :: "regex \<Rightarrow> jsstring \<Rightarrow> (jsstring \<times> jsstring) option" where
  "find_first rx s =
     (case matcher rx s of
        r # _ \<Rightarrow> Some (take (length s - length r) s, r)
      | [] \<Rightarrow> (case s of [] \<Rightarrow> None | _ # t \<Rightarrow> find_first rx t))"

declare find_first.simps [simp del]

lemma matcher_suffix: "r \<in> set (matcher rx s) \<Longrightarrow> \<exists>w. s = w @ r"
proof (induction rx s arbitrary: r rule: matcher.induct)
  case (1 s)
  then show ?case by simp
next
  case (2 k s)
  then show ?case by (cases s) (simp_all split: if_splits)
next
  case (3 items s)
  then show ?case by (cases s) (simp_all split: if_splits)
next
  case (4 a b s)
  from "4.prems" obtain m where m: "m \<in> set (matcher a s)" and r: "r \<in> set (matcher b m)"
    by auto
  from "4.IH"(1)[OF m] obtain w1 where "s = w1 @ m" ..
  moreover from "4.IH"(2)[OF m r] obtain w2 where "m = w2 @ r" ..
  ultimately have "s = (w1 @ w2) @ r" by simp
  then show ?case ..
next
  case (5 a b s)
  then show ?case by auto
next
  case (6 a s)
  then show ?case by auto
next
  case (7 a s)
  show ?case
  proof (cases "r = s")
    case True
    then show ?thesis by simp
  next
    case False
    from "7.prems" have "r \<in> set (concat (map (\<lambda>r. if length r < length s
        then matcher (Many a) r else []) (matcher a s)) @ [s])"
      by (simp only: matcher_Many[of a s])
    with False obtain m where m: "m \<in> set (matcher a s)" and l: "length m < length s"
      and r: "r \<in> set (matcher (Many a) m)"
      by (auto split: if_splits)
    from "7.IH"(1)[OF m] obtain w1 where "s = w1 @ m" ..
    moreover from "7.IH"(2)[OF m l r] obtain w2 where "m = w2 @ r" ..
    ultimately have "s = (w1 @ w2) @ r" by simp
    then show ?thesis ..
  qed
qed

lemma matcher_length: "r \<in> set (matcher rx s) \<Longrightarrow> length r \<le> length s"
  using matcher_suffix[of r rx s] by auto

lemma find_first_length:
  "find_first rx s = Some (m, r) \<Longrightarrow> length m + length r \<le> length s"
proof (induction s)
  case Nil
  show ?case
  proof (cases "matcher rx []")
    case Nil
    with Nil.prems show ?thesis by (simp add: find_first.simps[of rx "[]"])
  next
    case (Cons r' rs)
    then have "length r' \<le> length ([] :: jsstring)"
      using matcher_length[of r' rx "[]"] by simp
    with Cons Nil.prems show ?thesis by (auto simp: find_first.simps[of rx "[]"])
  qed
next
  case (Cons c s)
  show ?case
  proof (cases "matcher rx (c # s)")
    case Nil
    with Cons show ?thesis by (simp add: find_first.simps[of rx "c # s"])
  next
    case (Cons r' rs)
    then have "length r' \<le> length (c # s)" using matcher_length[of r' rx "c # s"] by simp
    with Cons Cons.prems show ?thesis by (auto simp: find_first.simps[of rx "c # s"])
  qed
qed

text \<open>
  \<open>String.prototype.match\<close> with a \<open>g\<close> pattern: every match from left to right, each
  search starting where the previous match ended (one code unit further after an empty
  match). The source treats \<open>null\<close> (no match) and the empty array alike, so the model
  returns the empty list for both.
\<close>

function match_global :: "regex \<Rightarrow> jsstring \<Rightarrow> jsstring list" where
  "match_global rx s =
     (case find_first rx s of
        None \<Rightarrow> []
      | Some (m, r) \<Rightarrow>
          m # (if m = [] then (case r of [] \<Rightarrow> [] | _ # t \<Rightarrow> match_global rx t)
               else match_global rx r))"
  by pat_completeness auto
termination
proof (relation "measure (\<lambda>(rx, s). length s)")
  show "wf (measure (\<lambda>(rx, s). length s))" by simp
next
  fix rx s x2 x y x21 x22
  assume "find_first rx s = Some x2" "(x, y) = x2" "x = []" "y = x21 # x22"
  then show "((rx, x22), rx, s) \<in> measure (\<lambda>(rx, s). length s)"
    using find_first_length[of rx s x y] by auto
next
  fix rx s x2 x y
  assume "find_first rx s = Some x2" "(x, y) = x2" "x \<noteq> []"
  then show "((rx, y), rx, s) \<in> measure (\<lambda>(rx, s). length s)"
    using find_first_length[of rx s x y] by (cases x) auto
qed

declare match_global.simps [simp del]

datatype category = youtube | steam | other

definition categorizeUrl :: "jsstring \<Rightarrow> category" where
  "categorizeUrl url =
     (if regex_test YOUTUBE_REGEX url then youtube
      else if regex_test STEAM_REGEX url then steam
      else other)"

section \<open>The chat platform and the state of the bot\<close>

text \<open>\<open>String.prototype.includes\<close>, \<open>join\<close>, \<open>trim\<close> and the decimal form of a number in a template literal.\<close>

fun includes_str :: "jsstring \<Rightarrow> jsstring \<Rightarrow> bool" where
  "includes_str needle s =
     (if take (length needle) s = needle then True
      else (case s of [] \<Rightarrow> False | _ # t \<Rightarrow> includes_str needle t))"

declare includes_str.simps [simp del]

fun join :: "jsstring \<Rightarrow> jsstring list \<Rightarrow> jsstring" where
  "join sep [] = []"
| "join sep [x] = x"
| "join sep (x # y # ys) = x @ sep @ join sep (y # ys)"

definition trim :: "jsstring \<Rightarrow> jsstring" where
  "trim s = rev (dropWhile isWhiteSpace (rev (dropWhile isWhiteSpace s)))"

fun digits :: "nat \<Rightarrow> jsstring" where
  "digits n = (if n < 10 then [48 + n] else digits (n div 10) @ [48 + n mod 10])"

declare digits.simps [simp del]

definition decimal :: "int \<Rightarrow> jsstring" where
  "decimal i = (if i < 0 then 45 # digits (nat (- i)) else digits (nat i))"

datatype ChannelType =
    GuildText | DM | GuildVoice | GroupDM | GuildCategory | GuildAnnouncement
  | AnnouncementThread | PublicThread | PrivateThread | GuildStageVoice
  | GuildDirectory | GuildForum | GuildMedia

record user =
  u_id :: jsstring
  u_username :: jsstring
  u_displayName :: jsstring
  u_bot :: bool
  u_avatarURL :: "nat \<Rightarrow> jsstring"

text \<open>
  A channel object. \<open>ch_guild\<close> is \<open>None\<close> for a direct-message channel
  (\<open>message.guild\<close> is then \<open>null\<close>).
\<close>

record channel =
  ch_id :: jsstring
  ch_name :: jsstring
  ch_type :: ChannelType
  ch_guild :: "jsstring option"

record attachment =
  att_url :: jsstring
  att_name :: jsstring

record embed =
  e_color :: nat
  e_author_name :: jsstring
  e_author_iconURL :: jsstring
  e_title :: "jsstring option"
  e_description :: "jsstring option"
  e_footer :: jsstring
  e_thumbnail :: jsstring
  e_timestamp :: int

text \<open>A message; \<open>m_createdAt\<close> is the creation time in milliseconds since the epoch.\<close>

record message =
  m_id :: jsstring
  m_author :: user
  m_content :: jsstring
  m_embeds :: "embed list"
  m_attachments :: "attachment list"
  m_createdAt :: int
  m_hasThread :: bool
  m_channel :: channel

record thread =
  t_id :: jsstring
  t_archived :: bool

text \<open>
  What is passed to \<open>send\<close>: the text (if any), the embeds and the files. The source sets
  \<open>files\<close> only when there is an attachment, so no files and an empty list coincide.
\<close>

datatype payload = Payload "jsstring option" "embed list" "attachment list"

datatype overwrite_target = EveryoneRole | BotMember

text \<open>The effects on the platform, in the order in which they happen.\<close>

datatype event =
    ChannelSend jsstring payload
  | ThreadSend jsstring payload
  | MessageDelete message
  | DeleteLater nat message
  | PermissionEdit jsstring overwrite_target
  | ChannelCreate jsstring jsstring jsstring
  | ThreadStart jsstring jsstring
  | ThreadUnarchive jsstring
  | Sleep nat

text \<open>
  The answer of the platform to one request: the request throws, or it succeeds; for a
  request that creates something (a message, a channel, a thread) the answer carries the
  identifier of what was created.
\<close>

datatype reply = Throws | Returns jsstring

datatype 'a promise = Rejected | Resolved 'a

text \<open>
  The state: the module-level variables of the bot (the three channel ids and the
  category-indexed cache \<open>destinationChannels\<close>), and the platform: the identity of the
  bot, the channel cache of every guild (in insertion order), the messages of every
  channel (newest first), the thread attached to a message, the permission query of the
  backfill, the clock, the parser behind \<open>new URL\<close> (host name and path, or \<open>None\<close> when it
  throws), the answers the platform gives to the successive requests, the number of
  requests made so far, and the effects so far. Console output is not modelled.
\<close>

record world =
  YOUTUBE_CHANNEL_ID :: jsstring
  STEAM_CHANNEL_ID :: jsstring
  LINKS_CHANNEL_ID :: jsstring
  destinationChannels :: "category \<Rightarrow> channel option"
  w_client_user :: user
  w_guilds :: "jsstring list"
  w_channels :: "jsstring \<Rightarrow> channel list"
  w_history :: "jsstring \<Rightarrow> message list"
  w_threads :: "jsstring \<Rightarrow> thread option"
  w_permitted :: "jsstring \<Rightarrow> bool"
  w_now :: int
  w_parseURL :: "jsstring \<Rightarrow> (jsstring \<times> jsstring) option"
  w_replies :: "nat \<Rightarrow> reply"
  w_calls :: nat
  w_trace :: "event list"

definition platform_call :: "world \<Rightarrow> reply \<times> world" where
  "platform_call w = (w_replies w (w_calls w), w\<lparr>w_calls := Suc (w_calls w)\<rparr>)"

definition emit :: "world \<Rightarrow> event \<Rightarrow> world" where
  "emit w e = w\<lparr>w_trace := w_trace w @ [e]\<rparr>"

text \<open>\<open>channel.send\<close>: on success the new message, written by the bot, is the newest of the channel.\<close>

definition channel_send :: "world \<Rightarrow> channel \<Rightarrow> payload \<Rightarrow> world \<times> message option" where
  "channel_send w ch p =
     (case platform_call w of
        (Throws, w1) \<Rightarrow> (w1, None)
      | (Returns mid, w1) \<Rightarrow>
          (case p of Payload content embeds files \<Rightarrow>
             let sent = \<lparr>m_id = mid, m_author = w_client_user w1,
                         m_content = (case content of None \<Rightarrow> [] | Some c \<Rightarrow> c),
                         m_embeds = embeds, m_attachments = files, m_createdAt = w_now w1,
                         m_hasThread = False, m_channel = ch\<rparr>
             in (emit (w1\<lparr>w_history := (w_history w1)(ch_id ch := sent # w_history w1 (ch_id ch))\<rparr>)
                      (ChannelSend (ch_id ch) p),
                 Some sent)))"

definition thread_send :: "world \<Rightarrow> thread \<Rightarrow> payload \<Rightarrow> world \<times> bool" where
  "thread_send w t p =
     (case platform_call w of
        (Throws, w1) \<Rightarrow> (w1, False)
      | (Returns _, w1) \<Rightarrow> (emit w1 (ThreadSend (t_id t) p), True))"

text \<open>\<open>message.delete\<close>: on success the message is gone from its channel.\<close>

definition message_delete :: "world \<Rightarrow> message \<Rightarrow> world \<times> bool" where
  "message_delete w msg =
     (case platform_call w of
        (Throws, w1) \<Rightarrow> (w1, False)
      | (Returns _, w1) \<Rightarrow>
          (emit (w1\<lparr>w_history := (w_history w1)(ch_id (m_channel msg) :=
                     filter (\<lambda>x. m_id x \<noteq> m_id msg) (w_history w1 (ch_id (m_channel msg))))\<rparr>)
                (MessageDelete msg),
           True))"

section \<open>Categories and helpers\<close>

record config =
  c_color :: nat
  c_icon :: jsstring
  c_title :: jsstring
  c_channelName :: jsstring
  c_topic :: jsstring

text \<open>
  The icons are the emoji U+1F4FA, U+1F3AE and U+1F517 as surrogate pairs; 8212 is the
  dash of the topics.
\<close>

fun CATEGORIES :: "category \<Rightarrow> config" where
  "CATEGORIES youtube =
     \<lparr>c_color = 16711680, c_icon = [55357, 56570], c_title = str ''YouTube Link'',
      c_channelName = str ''youtube'',
      c_topic = [55357, 56570] @ str '' YouTube links only '' @ [8212]
                @ str '' create a thread under any link to discuss it!''\<rparr>"
| "CATEGORIES steam =
     \<lparr>c_color = 1779768, c_icon = [55356, 57262], c_title = str ''Steam Store Link'',
      c_channelName = str ''games'',
      c_topic = [55356, 57262] @ str '' Steam links only '' @ [8212]
                @ str '' create a thread under any link to discuss it!''\<rparr>"
| "CATEGORIES other =
     \<lparr>c_color = 3447003, c_icon = [55357, 56599], c_title = str ''Links'',
      c_channelName = str ''links-channel'',
      c_topic = [55357, 56599] @ str '' Links only '' @ [8212]
                @ str '' create a thread under any link to discuss it!''\<rparr>"

fun getDestinationId :: "world \<Rightarrow> category \<Rightarrow> jsstring" where
  "getDestinationId w youtube = YOUTUBE_CHANNEL_ID w"
| "getDestinationId w steam = STEAM_CHANNEL_ID w"
| "getDestinationId w other = LINKS_CHANNEL_ID w"

definition isDestinationChannel :: "world \<Rightarrow> jsstring \<Rightarrow> bool" where
  "isDestinationChannel w channelId \<longleftrightarrow>
     channelId \<in> set [YOUTUBE_CHANNEL_ID w, STEAM_CHANNEL_ID w, LINKS_CHANNEL_ID w]"

fun updateEnvId :: "world \<Rightarrow> category \<Rightarrow> jsstring \<Rightarrow> world" where
  "updateEnvId w youtube i = w\<lparr>YOUTUBE_CHANNEL_ID := i\<rparr>"
| "updateEnvId w steam i = w\<lparr>STEAM_CHANNEL_ID := i\<rparr>"
| "updateEnvId w other i = w\<lparr>LINKS_CHANNEL_ID := i\<rparr>"

definition display_name :: "user \<Rightarrow> jsstring" where
  "display_name u = (if u_displayName u \<noteq> [] then u_displayName u else u_username u)"

text \<open>
  \<open>buildLinkEmbed(category, urls, user, sourceChannel, timestamp)\<close>; the world is read for
  \<open>new Date()\<close> only. The footer starts with the emoji U+1F4AC.
\<close>

definition buildLinkEmbed ::
  "world \<Rightarrow> category \<Rightarrow> jsstring list \<Rightarrow> user \<Rightarrow> channel option \<Rightarrow> int option \<Rightarrow> embed" where
  "buildLinkEmbed w category urls usr sourceChannel timestamp =
     (let config = CATEGORIES category in
      \<lparr>e_color = c_color config,
       e_author_name = display_name usr,
       e_author_iconURL = u_avatarURL usr 64,
       e_title = Some (c_icon config @ [32] @ c_title config),
       e_description = Some (
          join [10] urls
          @ [10, 10] @ str ''**Posted by:** <@'' @ u_id usr @ str ''>''
          @ (case sourceChannel of
               Some ch \<Rightarrow> [10] @ str ''**From:** <#'' @ ch_id ch @ str ''>''
             | None \<Rightarrow> [])
          @ (case timestamp of
               Some t \<Rightarrow> [10] @ str ''**Original date:** <t:'' @ decimal (t div 1000) @ str '':f>''
             | None \<Rightarrow> [])),
       e_footer = [55357, 56492] @ str '' Create a thread on this message to discuss!'',
       e_thumbnail = u_avatarURL usr 128,
       e_timestamp = (case timestamp of Some t \<Rightarrow> t | None \<Rightarrow> w_now w)\<rparr>)"

section \<open>The thread on the latest link embed\<close>

definition thread_name :: "world \<Rightarrow> message \<Rightarrow> jsstring" where
  "thread_name w latestEmbed =
     (let embedTitle = (case m_embeds latestEmbed of
                          e # _ \<Rightarrow> (case e_title e of
                                      Some t \<Rightarrow> if t \<noteq> [] then t else str ''Link Discussion''
                                    | None \<Rightarrow> str ''Link Discussion'')
                        | [] \<Rightarrow> str ''Link Discussion'');
          embedUrl = (case m_embeds latestEmbed of
                        e # _ \<Rightarrow> (case e_description e of
                                    Some d \<Rightarrow> takeWhile (\<lambda>c. c \<noteq> 10) d
                                  | None \<Rightarrow> [])
                      | [] \<Rightarrow> [])
      in if embedUrl \<noteq> [] then
           (case w_parseURL w (trim embedUrl) of
              Some (hostname, pathname) \<Rightarrow> take 100 ([55357, 56492, 32] @ hostname @ pathname)
            | None \<Rightarrow> take 100 ([55357, 56492, 32] @ embedTitle))
         else [55357, 56492, 32] @ embedTitle)"

text \<open>
  The \<open>try\<close> block of \<open>getOrCreateLatestThread\<close>: the thread that exists on the message,
  un-archived if need be; \<open>None\<close> when the block falls through (no thread object, or a
  request threw and the \<open>catch\<close> swallowed it).
\<close>

definition existing_thread :: "world \<Rightarrow> message \<Rightarrow> world \<times> thread option" where
  "existing_thread w latestEmbed =
     (if m_hasThread latestEmbed then
        (case w_threads w (m_id latestEmbed) of
           None \<Rightarrow> (w, None)
         | Some t \<Rightarrow>
             (case platform_call w of
                (Throws, w1) \<Rightarrow> (w1, None)
              | (Returns _, w1) \<Rightarrow>
                  if \<not> t_archived t then (w1, Some t)
                  else (case platform_call w1 of
                          (Throws, w2) \<Rightarrow> (w2, None)
                        | (Returns _, w2) \<Rightarrow>
                            (let t' = t\<lparr>t_archived := False\<rparr> in
                             (emit (w2\<lparr>w_threads := (w_threads w2)(m_id latestEmbed := Some t')\<rparr>)
                                   (ThreadUnarchive (t_id t)),
                              Some t')))))
      else (w, None))"

definition is_link_embed :: "world \<Rightarrow> message \<Rightarrow> bool" where
  "is_link_embed w msg \<longleftrightarrow> u_id (m_author msg) = u_id (w_client_user w) \<and> m_embeds msg \<noteq> []"

definition getOrCreateLatestThread :: "world \<Rightarrow> channel \<Rightarrow> world \<times> thread option promise" where
  "getOrCreateLatestThread w ch =
     (case platform_call w of
        (Throws, w1) \<Rightarrow> (w1, Rejected)
      | (Returns _, w1) \<Rightarrow>
          (let recentMessages = take 50 (w_history w1 (ch_id ch)) in
           case find (is_link_embed w1) recentMessages of
             None \<Rightarrow> (w1, Resolved None)
           | Some latestEmbed \<Rightarrow>
               (case existing_thread w1 latestEmbed of
                  (w2, Some t) \<Rightarrow> (w2, Resolved (Some t))
                | (w2, None) \<Rightarrow>
                    (case platform_call w2 of
                       (Throws, w3) \<Rightarrow> (w3, Rejected)
                     | (Returns tid, w3) \<Rightarrow>
                         (let t = \<lparr>t_id = tid, t_archived = False\<rparr> in
                          (emit (w3\<lparr>w_threads := (w_threads w3)(m_id latestEmbed := Some t),
                                    w_history := (w_history w3)(ch_id ch :=
                                       map (\<lambda>x. if m_id x = m_id latestEmbed
                                                 then x\<lparr>m_hasThread := True\<rparr> else x)
                                           (w_history w3 (ch_id ch)))\<rparr>)
                                (ThreadStart (m_id latestEmbed) (thread_name w3 latestEmbed)),
                           Resolved (Some t)))))))"

section \<open>Destination channels\<close>

definition enforceStrictPermissions :: "world \<Rightarrow> channel \<Rightarrow> world" where
  "enforceStrictPermissions w ch =
     (case platform_call w of
        (Throws, w1) \<Rightarrow> w1
      | (Returns _, w1) \<Rightarrow>
          (case platform_call (emit w1 (PermissionEdit (ch_id ch) EveryoneRole)) of
             (Throws, w2) \<Rightarrow> w2
           | (Returns _, w2) \<Rightarrow> emit w2 (PermissionEdit (ch_id ch) BotMember)))"

text \<open>
  \<open>guild.channels.cache\<close> is a map from ids to channels that keeps insertion order:
  \<open>get\<close> finds the channel of an id, and a created channel is added at the end (or
  replaces the entry of its id).
\<close>

definition cache_get :: "channel list \<Rightarrow> jsstring \<Rightarrow> channel option" where
  "cache_get chans i = find (\<lambda>ch. ch_id ch = i) chans"

fun cache_set :: "channel list \<Rightarrow> channel \<Rightarrow> channel list" where
  "cache_set [] c = [c]"
| "cache_set (x # xs) c = (if ch_id x = ch_id c then c # xs else x # cache_set xs c)"

definition bind_destination :: "world \<Rightarrow> category \<Rightarrow> channel \<Rightarrow> world" where
  "bind_destination w category ch =
     w\<lparr>destinationChannels := (destinationChannels w)(category := Some ch)\<rparr>"

definition ensureChannel :: "world \<Rightarrow> jsstring \<Rightarrow> category \<Rightarrow> world \<times> channel promise" where
  "ensureChannel w guild category =
     (let config = CATEGORIES category;
          envId = getDestinationId w category;
          byId = (if envId \<noteq> [] \<and> length envId > 10
                  then cache_get (w_channels w guild) envId else None)
      in case byId of
           Some existing \<Rightarrow>
             (enforceStrictPermissions (bind_destination w category existing) existing,
              Resolved existing)
         | None \<Rightarrow>
             (case find (\<lambda>ch. ch_name ch = c_channelName config \<and> ch_type ch = GuildText)
                        (w_channels w guild) of
                Some byName \<Rightarrow>
                  (enforceStrictPermissions
                     (updateEnvId (bind_destination w category byName) category (ch_id byName))
                     byName,
                   Resolved byName)
              | None \<Rightarrow>
                  (case platform_call w of
                     (Throws, w1) \<Rightarrow> (w1, Rejected)
                   | (Returns newId, w1) \<Rightarrow>
                       (let created = \<lparr>ch_id = newId, ch_name = c_channelName config,
                                        ch_type = GuildText, ch_guild = Some guild\<rparr>;
                            w2 = emit (w1\<lparr>w_channels := (w_channels w1)(guild :=
                                          cache_set (w_channels w1 guild) created)\<rparr>)
                                      (ChannelCreate guild (c_channelName config) (c_topic config))
                        in (enforceStrictPermissions
                              (updateEnvId (bind_destination w2 category created) category newId)
                              created,
                            Resolved created)))))"

section \<open>Grouping the links of a message\<close>

text \<open>
  \<open>grouped\<close> is an object whose keys are category names; \<open>Object.entries\<close> lists them in
  the order in which they were first added.
\<close>

type_synonym grouped = "(category \<times> jsstring list) list"

fun push_url :: "grouped \<Rightarrow> category \<Rightarrow> jsstring \<Rightarrow> grouped" where
  "push_url [] cat url = [(cat, [url])]"
| "push_url ((c, us) # g) cat url =
     (if c = cat then (c, us @ [url]) # g else (c, us) # push_url g cat url)"

fun group_urls :: "jsstring list \<Rightarrow> grouped \<Rightarrow> grouped" where
  "group_urls [] g = g"
| "group_urls (url # urls) g = group_urls urls (push_url g (categorizeUrl url) url)"

section \<open>Backfill\<close>

text \<open>\<open>new Date('2026-01-01T00:00:00Z')\<close> in milliseconds.\<close>

definition BACKFILL_AFTER :: int where
  "BACKFILL_AFTER = 1767225600000"

definition embed_payload :: "embed \<Rightarrow> payload" where
  "embed_payload e = Payload None [e] []"

text \<open>
  The loop over \<open>Object.entries(grouped)\<close> for one message of the history; the state is
  \<open>movedInChannel\<close> and \<open>movedThisMsg\<close>. The \<open>send\<close> is not inside a \<open>try\<close>: when it throws,
  the whole backfill is rejected.
\<close>

fun backfill_route ::
  "world \<Rightarrow> channel \<Rightarrow> message \<Rightarrow> grouped \<Rightarrow> nat \<times> bool \<Rightarrow> world \<times> (nat \<times> bool) promise" where
  "backfill_route w ch msg [] st = (w, Resolved st)"
| "backfill_route w ch msg ((category, catUrls) # rest) (movedInChannel, movedThisMsg) =
     (case destinationChannels w category of
        None \<Rightarrow> backfill_route w ch msg rest (movedInChannel, movedThisMsg)
      | Some destChannel \<Rightarrow>
          if ch_id destChannel = ch_id ch
          then backfill_route w ch msg rest (movedInChannel, movedThisMsg)
          else (case channel_send w destChannel
                       (embed_payload (buildLinkEmbed w category catUrls (m_author msg) (Some ch)
                                         (Some (m_createdAt msg)))) of
                  (w1, None) \<Rightarrow> (w1, Rejected)
                | (w1, Some _) \<Rightarrow> backfill_route w1 ch msg rest (Suc movedInChannel, True)))"

text \<open>
  The loop over the messages of one page; the result is \<open>movedInChannel\<close> and
  \<open>reachedCutoff\<close>.
\<close>

fun backfill_page ::
  "world \<Rightarrow> channel \<Rightarrow> message list \<Rightarrow> nat \<Rightarrow> world \<times> (nat \<times> bool) promise" where
  "backfill_page w ch [] moved = (w, Resolved (moved, False))"
| "backfill_page w ch (msg # msgs) moved =
     (if m_createdAt msg < BACKFILL_AFTER then (w, Resolved (moved, True))
      else if u_bot (m_author msg) then backfill_page w ch msgs moved
      else (let urls = match_global URL_REGEX (m_content msg) in
            if urls = [] then backfill_page w ch msgs moved
            else (case backfill_route w ch msg (group_urls urls []) (moved, False) of
                    (w1, Rejected) \<Rightarrow> (w1, Rejected)
                  | (w1, Resolved (moved1, movedThisMsg)) \<Rightarrow>
                      backfill_page (if movedThisMsg then fst (message_delete w1 msg) else w1)
                                    ch msgs moved1)))"

text \<open>
  The \<open>while\<close> loop over the pages of one channel. \<open>older\<close> is what the platform holds
  before the cursor \<open>lastId\<close> (newest first): a page is its first hundred messages, and the
  next request, \<open>before\<close> the last message of the page, sees the rest. A fetch that throws
  ends the scan of the channel.
\<close>

function backfill_channel ::
  "world \<Rightarrow> channel \<Rightarrow> message list \<Rightarrow> nat \<Rightarrow> world \<times> nat promise" where
  "backfill_channel w ch older moved =
     (case platform_call w of
        (Throws, w1) \<Rightarrow> (w1, Resolved moved)
      | (Returns _, w1) \<Rightarrow>
          (if take 100 older = [] then (w1, Resolved moved)
           else (case backfill_page w1 ch (take 100 older) moved of
                   (w2, Rejected) \<Rightarrow> (w2, Rejected)
                 | (w2, Resolved (moved2, reachedCutoff)) \<Rightarrow>
                     if reachedCutoff then (emit w2 (Sleep 1000), Resolved moved2)
                     else backfill_channel (emit w2 (Sleep 1000)) ch (drop 100 older) moved2)))"
  by pat_completeness auto
termination
  by (relation "measure (\<lambda>(w, ch, older, moved). length older)") auto

declare backfill_channel.simps [simp del]

fun backfill_channels :: "world \<Rightarrow> channel list \<Rightarrow> nat \<Rightarrow> world \<times> nat promise" where
  "backfill_channels w [] totalMoved = (w, Resolved totalMoved)"
| "backfill_channels w (ch # rest) totalMoved =
     (if includes_str (str ''-private'') (ch_name ch) then backfill_channels w rest totalMoved
      else (case backfill_channel w ch (w_history w (ch_id ch)) 0 of
              (w1, Rejected) \<Rightarrow> (w1, Rejected)
            | (w1, Resolved movedInChannel) \<Rightarrow>
                backfill_channels w1 rest
                  (if movedInChannel > 0 then totalMoved + movedInChannel else totalMoved)))"

definition backfillGuild :: "world \<Rightarrow> jsstring \<Rightarrow> world \<times> nat promise" where
  "backfillGuild w guild =
     backfill_channels w
       (filter (\<lambda>ch. ch_type ch = GuildText \<and> \<not> isDestinationChannel w (ch_id ch)
                     \<and> w_permitted w (ch_id ch))
               (w_channels w guild))
       0"

section \<open>Start-up\<close>

fun ready_guilds :: "world \<Rightarrow> jsstring list \<Rightarrow> world \<times> unit promise" where
  "ready_guilds w [] = (w, Resolved ())"
| "ready_guilds w (guild # rest) =
     (case ensureChannel w guild youtube of
        (w1, Rejected) \<Rightarrow> (w1, Rejected)
      | (w1, Resolved _) \<Rightarrow>
     (case ensureChannel w1 guild steam of
        (w2, Rejected) \<Rightarrow> (w2, Rejected)
      | (w2, Resolved _) \<Rightarrow>
     (case ensureChannel w2 guild other of
        (w3, Rejected) \<Rightarrow> (w3, Rejected)
      | (w3, Resolved _) \<Rightarrow>
     (case backfillGuild w3 guild of
        (w4, Rejected) \<Rightarrow> (w4, Rejected)
      | (w4, Resolved _) \<Rightarrow> ready_guilds w4 rest))))"

definition ready :: "world \<Rightarrow> world \<times> unit promise" where
  "ready w = ready_guilds w (w_guilds w)"

section \<open>The live message handler\<close>

definition isThread :: "channel \<Rightarrow> bool" where
  "isThread ch \<longleftrightarrow> ch_type ch \<in> set [AnnouncementThread, PublicThread, PrivateThread]"

definition mention :: "user \<Rightarrow> jsstring" where
  "mention usr = str ''<@'' @ u_id usr @ str ''>''"

definition repost_payload :: "message \<Rightarrow> payload" where
  "repost_payload message =
     Payload (Some (str ''**'' @ display_name (m_author message) @ str ''** said:'' @ [10]
                    @ str ''> ''
                    @ (if m_content message \<noteq> [] then m_content message else str ''*(no text)*'')))
             [] (m_attachments message)"

definition moved_notice :: "message \<Rightarrow> thread \<Rightarrow> payload" where
  "moved_notice message t =
     Payload (Some ([55357, 56492, 32] @ mention (m_author message)
                    @ str '' Your message was moved to the discussion thread: ''
                    @ str ''<#'' @ t_id t @ str ''>''
                    @ str ''. Please use threads to discuss links!'')) [] []"

definition no_links_notice :: "message \<Rightarrow> payload" where
  "no_links_notice message =
     Payload (Some ([55357, 56492, 32] @ mention (m_author message)
                    @ str '' This channel is for links only! ''
                    @ str ''No links have been posted yet to create a thread on. ''
                    @ str ''Please wait for a link to be posted, then create a thread to discuss it.''))
             [] []"

definition private_notice :: "message \<Rightarrow> payload" where
  "private_notice message =
     Payload (Some ([9940, 32] @ mention (m_author message)
                    @ str '' This is a chat-only room. No unsolicited links allowed. ''
                    @ str ''Please use the designated URL channels or send links via DM.''))
             [] []"

text \<open>
  Strict mode (a message in a link channel). Everything is inside one \<open>try\<close>; a request
  that throws ends the block.
\<close>

definition strict_mode :: "world \<Rightarrow> message \<Rightarrow> world" where
  "strict_mode w message =
     (case message_delete w message of
        (w1, False) \<Rightarrow> w1
      | (w1, True) \<Rightarrow>
          (case getOrCreateLatestThread w1 (m_channel message) of
             (w2, Rejected) \<Rightarrow> w2
           | (w2, Resolved (Some t)) \<Rightarrow>
               (case thread_send w2 t (repost_payload message) of
                  (w3, False) \<Rightarrow> w3
                | (w3, True) \<Rightarrow>
                    (case channel_send w3 (m_channel message) (moved_notice message t) of
                       (w4, None) \<Rightarrow> w4
                     | (w4, Some notice) \<Rightarrow> emit w4 (DeleteLater 10000 notice)))
           | (w2, Resolved None) \<Rightarrow>
               (case channel_send w2 (m_channel message) (no_links_notice message) of
                  (w3, None) \<Rightarrow> w3
                | (w3, Some warning) \<Rightarrow> emit w3 (DeleteLater 15000 warning))))"

definition private_block :: "world \<Rightarrow> message \<Rightarrow> world" where
  "private_block w message =
     (case message_delete w message of
        (w1, False) \<Rightarrow> w1
      | (w1, True) \<Rightarrow>
          (case channel_send w1 (m_channel message) (private_notice message) of
             (w2, None) \<Rightarrow> w2
           | (w2, Some warning) \<Rightarrow> emit w2 (DeleteLater 10000 warning)))"

text \<open>
  The loop over \<open>toRoute\<close>; \<open>routed\<close> collects the category, the id of the destination and
  the icon. The \<open>send\<close> is not inside a \<open>try\<close>: when it throws, the handler is rejected.
\<close>

type_synonym routed = "(category \<times> jsstring \<times> jsstring) list"

fun route :: "world \<Rightarrow> message \<Rightarrow> grouped \<Rightarrow> routed \<Rightarrow> world \<times> routed promise" where
  "route w message [] routed = (w, Resolved routed)"
| "route w message ((category, urls) # rest) routed =
     (case destinationChannels w category of
        None \<Rightarrow> route w message rest routed
      | Some destChannel \<Rightarrow>
          (case channel_send w destChannel
                  (embed_payload (buildLinkEmbed w category urls (m_author message)
                                    (Some (m_channel message)) (Some (m_createdAt message)))) of
             (w1, None) \<Rightarrow> (w1, Rejected)
           | (w1, Some _) \<Rightarrow>
               route w1 message rest
                 (routed @ [(category, ch_id destChannel, c_icon (CATEGORIES category))])))"

fun notice_line :: "message \<Rightarrow> category \<times> jsstring \<times> jsstring \<Rightarrow> jsstring" where
  "notice_line message (category, destId, icon) =
     icon @ [32] @ mention (m_author message) @ [32]
     @ (if category = youtube then str ''YouTube link''
        else if category = steam then str ''Steam link'' else str ''Link'')
     @ str '' detected, moved to <#'' @ destId
     @ str ''>. Create a **thread** there to discuss it!''"

definition notify_moved :: "world \<Rightarrow> message \<Rightarrow> routed \<Rightarrow> world" where
  "notify_moved w message routed =
     (case message_delete w message of
        (w1, False) \<Rightarrow> w1
      | (w1, True) \<Rightarrow>
          (case channel_send w1 (m_channel message)
                  (Payload (Some (join [10] (map (notice_line message) routed))) [] []) of
             (w2, None) \<Rightarrow> w2
           | (w2, Some notification) \<Rightarrow> emit w2 (DeleteLater 10000 notification)))"

definition messageCreate :: "world \<Rightarrow> message \<Rightarrow> world \<times> unit promise" where
  "messageCreate w message =
     (if u_bot (m_author message) then (w, Resolved ())
      else if ch_guild (m_channel message) = None then (w, Resolved ())
      else if isThread (m_channel message) then (w, Resolved ())
      else if isDestinationChannel w (ch_id (m_channel message))
        then (strict_mode w message, Resolved ())
      else (let allUrls = match_global URL_REGEX (m_content message) in
            if allUrls = [] then (w, Resolved ())
            else if includes_str (str ''-private'') (ch_name (m_channel message))
              then (private_block w message, Resolved ())
            else (let grouped = group_urls allUrls [];
                      toRoute = filter (\<lambda>(category, urls).
                                  getDestinationId w category \<noteq> ch_id (m_channel message)) grouped
                  in if toRoute = [] then (w, Resolved ())
                     else (case route w message toRoute [] of
                             (w1, Rejected) \<Rightarrow> (w1, Rejected)
                           | (w1, Resolved routed) \<Rightarrow>
                               if routed = [] then (w1, Resolved ())
                               else (notify_moved w1 message routed, Resolved ())))))"

section \<open>Notions used to state the properties\<close>

text \<open>
  \<open>only P rx\<close>: every character that the pattern \<open>rx\<close> can consume satisfies \<open>P\<close>.
  \<open>same_ignoring_case u k\<close>: \<open>u\<close> is \<open>k\<close> up to the case of ASCII letters.
  \<open>youtube_text\<close> and \<open>steam_text\<close> spell out what the two category patterns require of
  a matched text, and \<open>contains_text P url\<close> says that \<open>url\<close> has a piece satisfying \<open>P\<close>.
\<close>

fun only :: "(nat \<Rightarrow> bool) \<Rightarrow> regex \<Rightarrow> bool" where
  "only P Eps = True"
| "only P (Lit k) = (\<forall>c. canonicalize c = canonicalize k \<longrightarrow> P c)"
| "only P (NoneOf items) = (\<forall>c. \<not> list_ex (in_item c) items \<longrightarrow> P c)"
| "only P (Then a b) = (only P a \<and> only P b)"
| "only P (Or a b) = (only P a \<and> only P b)"
| "only P (Opt a) = only P a"
| "only P (Many a) = only P a"

definition urlChar :: "nat \<Rightarrow> bool" where
  "urlChar c \<longleftrightarrow> \<not> isWhiteSpace c \<and> c \<notin> set [60, 62, 34, 123, 125, 124, 92, 94, 96, 91, 93]"

definition same_ignoring_case :: "jsstring \<Rightarrow> jsstring \<Rightarrow> bool" where
  "same_ignoring_case u k \<longleftrightarrow> map canonicalize u = map canonicalize k"

definition youtube_text :: "jsstring \<Rightarrow> bool" where
  "youtube_text u \<longleftrightarrow>
     (\<exists>sc w h. u = sc @ w @ h
        \<and> (same_ignoring_case sc (str ''http://'') \<or> same_ignoring_case sc (str ''https://''))
        \<and> (w = [] \<or> same_ignoring_case w (str ''www.''))
        \<and> (same_ignoring_case h (str ''youtube.com'') \<or> same_ignoring_case h (str ''youtu.be'')
             \<or> same_ignoring_case h (str ''m.youtube.com'')))"

definition steam_text :: "jsstring \<Rightarrow> bool" where
  "steam_text u \<longleftrightarrow>
     (\<exists>sc h. u = sc @ h
        \<and> (same_ignoring_case sc (str ''http://'') \<or> same_ignoring_case sc (str ''https://''))
        \<and> same_ignoring_case h (str ''store.steampowered.com''))"

definition contains_text :: "(jsstring \<Rightarrow> bool) \<Rightarrow> jsstring \<Rightarrow> bool" where
  "contains_text P url \<longleftrightarrow> (\<exists>pre u post. url = pre @ u @ post \<and> P u)"

definition is_scheme :: "jsstring \<Rightarrow> bool" where
  "is_scheme sc \<longleftrightarrow>
     same_ignoring_case sc (str ''http://'') \<or> same_ignoring_case sc (str ''https://'')"

definition scheme_rx :: "regex \<Rightarrow> regex" where
  "scheme_rx b = Then (lits (str ''http'')) (Then (Opt (Lit 115)) (Then (lits (str ''://'')) b))"

text \<open>\<open>replies_ok w k\<close>: the next \<open>k\<close> requests to the platform do not throw.\<close>

definition replies_ok :: "world \<Rightarrow> nat \<Rightarrow> bool" where
  "replies_ok w k \<longleftrightarrow> (\<forall>i<k. w_replies w (w_calls w + i) \<noteq> Throws)"


text \<open>
  \<open>extends P w w'\<close>: the effects of \<open>w'\<close> are those of \<open>w\<close> followed by effects that all
  satisfy \<open>P\<close>. \<open>is_embed_send\<close>: the effect is a message with an embed sent to a channel.
  \<open>summary_of src msg e\<close>: the effect \<open>e\<close> is the sending of a link embed composed for the
  message \<open>msg\<close> found in the channel \<open>src\<close>, with the creation time of \<open>msg\<close> as its
  timestamp. \<open>calm w\<close>: no request to the platform throws.
\<close>

definition extends :: "(event \<Rightarrow> bool) \<Rightarrow> world \<Rightarrow> world \<Rightarrow> bool" where
  "extends P w w' \<longleftrightarrow> (\<exists>evs. w_trace w' = w_trace w @ evs \<and> (\<forall>e\<in>set evs. P e))"

fun is_embed_send :: "event \<Rightarrow> bool" where
  "is_embed_send (ChannelSend dest (Payload content embeds files)) = (embeds \<noteq> [])"
| "is_embed_send _ = False"

definition summary_of :: "channel \<Rightarrow> message \<Rightarrow> event \<Rightarrow> bool" where
  "summary_of src msg e \<longleftrightarrow>
     (\<exists>dest w0 category urls.
        e = ChannelSend dest (embed_payload (buildLinkEmbed w0 category urls (m_author msg)
                                (Some src) (Some (m_createdAt msg)))))"

definition calm :: "world \<Rightarrow> bool" where
  "calm w \<longleftrightarrow> (\<forall>n. w_replies w n \<noteq> Throws)"

text \<open>
  \<open>fresh m\<close>: the message is not older than the cutoff. \<open>relocation ch msgs e\<close>: the
  effect \<open>e\<close> is the pause between two pages, or the relocation (the sending of its
  link embed, or its deletion) of a message of \<open>msgs\<close> that no bot wrote.
  \<open>guild_relocation e\<close>: the same for some channel and some fresh message.
\<close>

definition fresh :: "message \<Rightarrow> bool" where
  "fresh m \<longleftrightarrow> \<not> m_createdAt m < BACKFILL_AFTER"

definition relocation :: "channel \<Rightarrow> message list \<Rightarrow> event \<Rightarrow> bool" where
  "relocation ch msgs e \<longleftrightarrow>
     e = Sleep 1000
     \<or> (\<exists>m\<in>set msgs. \<not> u_bot (m_author m) \<and> (e = MessageDelete m \<or> summary_of ch m e))"

definition guild_relocation :: "event \<Rightarrow> bool" where
  "guild_relocation e \<longleftrightarrow>
     e = Sleep 1000
     \<or> (\<exists>ch m. \<not> u_bot (m_author m) \<and> fresh m \<and> (e = MessageDelete m \<or> summary_of ch m e))"

text \<open>
  \<open>expected_sends w message groups\<close>: the sends of link embeds that are due for the
  groups of a live message, in the order of the groups: one for every group whose
  category has a cached destination channel, none for a group whose category has none.
\<close>

fun expected_sends :: "world \<Rightarrow> message \<Rightarrow> grouped \<Rightarrow> event list" where
  "expected_sends w message [] = []"
| "expected_sends w message ((category, urls) # rest) =
     (case destinationChannels w category of
        None \<Rightarrow> expected_sends w message rest
      | Some destChannel \<Rightarrow>
          ChannelSend (ch_id destChannel)
            (Payload None
               [buildLinkEmbed w category urls (m_author message) (Some (m_channel message))
                  (Some (m_createdAt message))] [])
          # expected_sends w message rest)"

section \<open>Example states\<close>

text \<open>
  Concrete users, channels and states on which the properties below are exercised. In
  \<open>blank_world\<close> every request succeeds and the n-th request returns a fresh identifier.
\<close>

definition bot_user :: user where
  "bot_user = \<lparr>u_id = str ''900'', u_username = str ''router'', u_displayName = str ''Router'',
                u_bot = True, u_avatarURL = (\<lambda>_. str ''avatar'')\<rparr>"

definition alice :: user where
  "alice = \<lparr>u_id = str ''501'', u_username = str ''alice'', u_displayName = [],
             u_bot = False, u_avatarURL = (\<lambda>_. str ''avatar'')\<rparr>"

definition blank_world :: world where
  "blank_world =
     \<lparr>YOUTUBE_CHANNEL_ID = [], STEAM_CHANNEL_ID = [], LINKS_CHANNEL_ID = [],
      destinationChannels = (\<lambda>_. None), w_client_user = bot_user, w_guilds = [],
      w_channels = (\<lambda>_. []), w_history = (\<lambda>_. []), w_threads = (\<lambda>_. None),
      w_permitted = (\<lambda>_. True), w_now = 1770000000000, w_parseURL = (\<lambda>_. None),
      w_replies = (\<lambda>n. Returns (str ''7777777777'' @ [48 + n])), w_calls = 0, w_trace = []\<rparr>"

text \<open>
  Two guilds: the first has a channel \<open>videos\<close> whose id is configured as the YouTube
  channel, the second has no channel.
\<close>

definition videos :: channel where
  "videos = \<lparr>ch_id = str ''11111111111'', ch_name = str ''videos'', ch_type = GuildText,
              ch_guild = Some (str ''g1'')\<rparr>"

definition two_guilds :: world where
  "two_guilds = blank_world\<lparr>YOUTUBE_CHANNEL_ID := str ''11111111111'',
       w_guilds := [str ''g1'', str ''g2''],
       w_channels := (\<lambda>g. if g = str ''g1'' then [videos] else [])\<rparr>"

text \<open>
  A guild with the link channel \<open>videos\<close> and the ordinary channel \<open>general\<close>. The link
  channel holds one link embed of the bot, \<open>posted\<close>, whose thread is archived.
\<close>

definition general :: channel where
  "general = \<lparr>ch_id = str ''22222222222'', ch_name = str ''general'', ch_type = GuildText,
               ch_guild = Some (str ''g1'')\<rparr>"

definition posted :: message where
  "posted = \<lparr>m_id = str ''m1'', m_author = bot_user, m_content = [],
              m_embeds = [buildLinkEmbed blank_world youtube [str ''https://youtu.be/abc''] alice
                            (Some general) (Some 1769000000000)],
              m_attachments = [], m_createdAt = 1769000001000, m_hasThread = True,
              m_channel = videos\<rparr>"

definition thread_world :: world where
  "thread_world = blank_world\<lparr>YOUTUBE_CHANNEL_ID := str ''11111111111'',
       destinationChannels := (\<lambda>c. if c = youtube then Some videos else None),
       w_guilds := [str ''g1''],
       w_channels := (\<lambda>g. if g = str ''g1'' then [videos, general] else []),
       w_history := (\<lambda>c. if c = str ''11111111111'' then [posted] else []),
       w_threads := (\<lambda>i. if i = str ''m1''
                            then Some \<lparr>t_id = str ''m1'', t_archived = True\<rparr> else None)\<rparr>"

text \<open>
  The same guild with a second link channel, \<open>games\<close>, for the Steam category; a message
  of a user in \<open>general\<close> with one link of each of the two categories; a state in which
  the second request throws; and two messages of a user posted directly in the link
  channel \<open>videos\<close>, one plain, one with a YouTube link.
\<close>

definition games :: channel where
  "games = \<lparr>ch_id = str ''33333333333'', ch_name = str ''games'', ch_type = GuildText,
             ch_guild = Some (str ''g1'')\<rparr>"

definition guild_world :: world where
  "guild_world = thread_world\<lparr>STEAM_CHANNEL_ID := str ''33333333333'',
       destinationChannels := (\<lambda>c. if c = youtube then Some videos
                                     else if c = steam then Some games else None),
       w_channels := (\<lambda>g. if g = str ''g1'' then [videos, general, games] else [])\<rparr>"

definition link_post :: message where
  "link_post = \<lparr>m_id = str ''m7'', m_author = alice,
      m_content = str ''look https://youtu.be/xyz and https://store.steampowered.com/app/9'',
      m_embeds = [], m_attachments = [], m_createdAt = 1769900000123, m_hasThread = False,
      m_channel = general\<rparr>"

definition flaky_world :: world where
  "flaky_world = guild_world\<lparr>w_replies := (\<lambda>n. if n = 1 then Throws else Returns [48 + n])\<rparr>"

definition chat :: message where
  "chat = \<lparr>m_id = str ''m8'', m_author = alice, m_content = str ''nice one'',
      m_embeds = [], m_attachments = [\<lparr>att_url = str ''https://cdn.example/cat.png'',
                                        att_name = str ''cat.png''\<rparr>],
      m_createdAt = 1769900000456, m_hasThread = False, m_channel = videos\<rparr>"


text \<open>
  A history of \<open>general\<close>, newest first: a link of a user, a link posted by another bot,
  a link of a user from before the cutoff, and a link of a user listed after it.
\<close>

definition other_bot :: user where
  "other_bot = \<lparr>u_id = str ''777'', u_username = str ''feedbot'', u_displayName = [],
                 u_bot = True, u_avatarURL = (\<lambda>_. str ''avatar'')\<rparr>"

definition h1 :: message where
  "h1 = \<lparr>m_id = str ''h1'', m_author = alice, m_content = str ''https://youtu.be/one'',
      m_embeds = [], m_attachments = [], m_createdAt = 1768000000000, m_hasThread = False,
      m_channel = general\<rparr>"

definition h2 :: message where
  "h2 = \<lparr>m_id = str ''h2'', m_author = other_bot, m_content = str ''https://youtu.be/two'',
      m_embeds = [], m_attachments = [], m_createdAt = 1767900000000, m_hasThread = False,
      m_channel = general\<rparr>"

definition h3 :: message where
  "h3 = \<lparr>m_id = str ''h3'', m_author = alice, m_content = str ''https://youtu.be/three'',
      m_embeds = [], m_attachments = [], m_createdAt = 1767225599999, m_hasThread = False,
      m_channel = general\<rparr>"

definition h4 :: message where
  "h4 = \<lparr>m_id = str ''h4'', m_author = alice, m_content = str ''https://youtu.be/four'',
      m_embeds = [], m_attachments = [], m_createdAt = 1767800000000, m_hasThread = False,
      m_channel = general\<rparr>"

definition history_world :: world where
  "history_world = guild_world\<lparr>w_history :=
       (\<lambda>c. if c = str ''22222222222'' then [h1, h2, h3, h4]
             else if c = str ''11111111111'' then [posted] else [])\<rparr>"

text \<open>
  A message of a user in \<open>general\<close> with a YouTube link and a link of the default
  category; in \<open>thread_world\<close> the default category has no cached destination.
\<close>

definition mixed_post :: message where
  "mixed_post = \<lparr>m_id = str ''m6'', m_author = alice,
      m_content = str ''https://youtu.be/xyz https://example.org/page'',
      m_embeds = [], m_attachments = [], m_createdAt = 1769900000999, m_hasThread = False,
      m_channel = general\<rparr>"

section \<open>Properties of the matcher\<close>

lemma matcher_only:
  "only P rx \<Longrightarrow> r \<in> set (matcher rx s) \<Longrightarrow> \<exists>w. s = w @ r \<and> (\<forall>c\<in>set w. P c)"
proof (induction rx s arbitrary: r rule: matcher.induct)
  case (1 s)
  then show ?case by simp
next
  case (2 k s)
  then show ?case by (cases s) (auto split: if_splits)
next
  case (3 items s)
  then show ?case by (cases s) (auto split: if_splits)
next
  case (4 a b s)
  from "4.prems" obtain m where m: "m \<in> set (matcher a s)" and r: "r \<in> set (matcher b m)"
    by auto
  from "4.prems" have oa: "only P a" and ob: "only P b" by simp_all
  from "4.IH"(1)[OF oa m] obtain w1 where w1: "s = w1 @ m" "\<forall>c\<in>set w1. P c" by blast
  from "4.IH"(2)[OF m ob r] obtain w2 where w2: "m = w2 @ r" "\<forall>c\<in>set w2. P c" by blast
  from w1 w2 have "s = (w1 @ w2) @ r \<and> (\<forall>c\<in>set (w1 @ w2). P c)" by auto
  then show ?case by blast
next
  case (5 a b s)
  then show ?case by auto
next
  case (6 a s)
  from "6.prems" have "r = s \<or> r \<in> set (matcher a s)" by auto
  then show ?case
  proof
    assume "r = s"
    then show ?thesis by simp
  next
    assume "r \<in> set (matcher a s)"
    with "6.IH" "6.prems"(1) show ?thesis by simp
  qed
next
  case (7 a s)
  show ?case
  proof (cases "r = s")
    case True
    then show ?thesis by simp
  next
    case False
    from "7.prems"(2) have "r \<in> set (concat (map (\<lambda>r. if length r < length s
        then matcher (Many a) r else []) (matcher a s)) @ [s])"
      by (simp only: matcher_Many[of a s])
    with False obtain m where m: "m \<in> set (matcher a s)" and l: "length m < length s"
      and r: "r \<in> set (matcher (Many a) m)"
      by (auto split: if_splits)
    from "7.prems"(1) have oa: "only P a" by simp
    from "7.IH"(1)[OF oa m] obtain w1 where w1: "s = w1 @ m" "\<forall>c\<in>set w1. P c" by blast
    from "7.IH"(2)[OF m l "7.prems"(1) r] obtain w2 where w2: "m = w2 @ r" "\<forall>c\<in>set w2. P c"
      by blast
    from w1 w2 have "s = (w1 @ w2) @ r \<and> (\<forall>c\<in>set (w1 @ w2). P c)" by auto
    then show ?thesis by blast
  qed
qed

lemma find_first_matcher:
  "find_first rx s = Some (m, r) \<Longrightarrow> r \<in> set (matcher rx (m @ r))"
proof (induction s)
  case Nil
  show ?case
  proof (cases "matcher rx []")
    case Nil
    with Nil.prems show ?thesis by (simp add: find_first.simps[of rx "[]"])
  next
    case (Cons r' rs)
    then have "r' \<in> set (matcher rx [])" by simp
    then have "r' = []" using matcher_length[of r' rx "[]"] by simp
    with Cons Nil.prems show ?thesis by (auto simp: find_first.simps[of rx "[]"])
  qed
next
  case (Cons c s)
  show ?case
  proof (cases "matcher rx (c # s)")
    case Nil
    with Cons show ?thesis by (simp add: find_first.simps[of rx "c # s"])
  next
    case (Cons r' rs)
    then have mem: "r' \<in> set (matcher rx (c # s))" by simp
    then obtain w where w: "c # s = w @ r'" using matcher_suffix by blast
    then have "take (length (c # s) - length r') (c # s) = w" by simp
    with Cons Cons.prems have "m = w" "r = r'"
      by (auto simp: find_first.simps[of rx "c # s"])
    with w mem show ?thesis by simp
  qed
qed

lemma match_global_matcher:
  "u \<in> set (match_global rx s) \<Longrightarrow> \<exists>r. r \<in> set (matcher rx (u @ r))"
proof (induction rx s rule: match_global.induct)
  case (1 rx s)
  show ?case
  proof (cases "find_first rx s")
    case None
    with "1.prems" show ?thesis by (simp add: match_global.simps[of rx s])
  next
    case (Some p)
    obtain m r where p: "p = (m, r)" by (cases p)
    show ?thesis
    proof (cases "u = m")
      case True
      with Some p find_first_matcher[of rx s m r] show ?thesis by blast
    next
      case False
      show ?thesis
      proof (cases "m = []")
        case True
        with False Some p "1.prems" obtain x t where rt: "r = x # t"
          and "u \<in> set (match_global rx t)"
          by (auto simp: match_global.simps[of rx s] split: list.splits)
        with "1.IH"(1)[OF Some p[symmetric] True rt] show ?thesis by simp
      next
        case F2: False
        with False Some p "1.prems" have "u \<in> set (match_global rx r)"
          by (auto simp: match_global.simps[of rx s])
        with "1.IH"(2)[OF Some p[symmetric] F2] show ?thesis by simp
      qed
    qed
  qed
qed

lemma canonicalize_eq_iff:
  "canonicalize c = canonicalize k \<longleftrightarrow>
     c = k \<or> (97 \<le> c \<and> c \<le> 122 \<and> k = c - 32) \<or> (97 \<le> k \<and> k \<le> 122 \<and> c = k - 32)"
  by (auto simp: canonicalize_def)

lemma only_URL_REGEX: "only urlChar URL_REGEX"
  unfolding URL_REGEX_def Many1_def URL_EXCLUDED_def str_def
  by (simp add: urlChar_def canonicalize_eq_iff isWhiteSpace_def) 

lemma URL_REGEX_consumes:
  assumes "r \<in> set (matcher URL_REGEX s)" shows "length r < length s"
proof -
  from assms obtain m where m: "m \<in> set (matcher (Lit 104) s)" 
    and r: "r \<in> set (matcher (Then (lits (str ''ttp'')) (Then (Opt (Lit 115)) (Then (lits (str ''://''))
       (Many1 (NoneOf URL_EXCLUDED))))) m)"
    by (auto simp: URL_REGEX_def str_def)
  from m have "length m < length s" by (cases s) (auto split: if_splits)
  with matcher_length[OF r] show ?thesis by simp
qed

lemma extracted_url:
  assumes "u \<in> set (match_global URL_REGEX content)"
  shows "u \<noteq> [] \<and> (\<forall>c\<in>set u. urlChar c)"
proof -
  from match_global_matcher[OF assms] obtain r where r: "r \<in> set (matcher URL_REGEX (u @ r))" ..
  from URL_REGEX_consumes[OF r] have "u \<noteq> []" by auto
  moreover from matcher_only[OF only_URL_REGEX r] obtain w where "u @ r = w @ r" "\<forall>c\<in>set w. urlChar c"
    by blast
  ultimately show ?thesis by simp
qed

lemma sic_Nil [simp]: "same_ignoring_case u [] \<longleftrightarrow> u = []"
  by (simp add: same_ignoring_case_def)

lemma sic_Cons:
  "same_ignoring_case u (k # ks) \<longleftrightarrow>
     (\<exists>c t. u = c # t \<and> canonicalize c = canonicalize k \<and> same_ignoring_case t ks)"
  by (cases u) (auto simp: same_ignoring_case_def)

lemma sic_append:
  "same_ignoring_case u (a @ b) \<longleftrightarrow>
     (\<exists>ua ub. u = ua @ ub \<and> same_ignoring_case ua a \<and> same_ignoring_case ub b)"
  unfolding same_ignoring_case_def map_append map_eq_append_conv by metis

lemma matcher_lits:
  "r \<in> set (matcher (lits k) s) \<longleftrightarrow> (\<exists>u. s = u @ r \<and> same_ignoring_case u k)"
proof (induction k arbitrary: s)
  case Nil
  then show ?case by auto
next
  case (Cons a k)
  show ?case
  proof (cases s)
    case Nil
    then show ?thesis by (auto simp: sic_Cons)
  next
    case (Cons c t)
    show ?thesis
    proof (cases "canonicalize c = canonicalize a")
      case True
      have "(\<exists>u. c # t = u @ r \<and> same_ignoring_case u (a # k))
            \<longleftrightarrow> (\<exists>u'. t = u' @ r \<and> same_ignoring_case u' k)"
        using True by (auto simp: sic_Cons Cons_eq_append_conv)
      with True Cons Cons.IH[of t] show ?thesis by simp
    next
      case False
      then have "\<not> (\<exists>u. c # t = u @ r \<and> same_ignoring_case u (a # k))"
        by (auto simp: sic_Cons Cons_eq_append_conv)
      with False Cons show ?thesis by simp
    qed
  qed
qed

lemma matcher_Opt_Lit:
  "r \<in> set (matcher (Opt (Lit k)) s) \<longleftrightarrow> r = s \<or> (\<exists>u. s = u @ r \<and> same_ignoring_case u [k])"
  by (cases s) (auto simp: sic_Cons)

lemma matcher_Opt_lits:
  "r \<in> set (matcher (Opt (lits k)) s) \<longleftrightarrow>
     r = s \<or> (\<exists>u. s = u @ r \<and> same_ignoring_case u k)"
proof -
  have "r \<in> set (matcher (Opt (lits k)) s) \<longleftrightarrow>
      r = s \<or> (r \<in> set (matcher (lits k) s) \<and> length r < length s)"
    by auto
  also have "\<dots> \<longleftrightarrow> r = s \<or> (\<exists>u. s = u @ r \<and> same_ignoring_case u k)"
    by (cases "r = s") (auto simp: matcher_lits)
  finally show ?thesis .
qed

lemma matcher_tail_nonempty: "matcher (Then a (Opt b)) s \<noteq> [] \<longleftrightarrow> matcher a s \<noteq> []"
  by (cases "matcher a s") auto

lemma nonempty_iff: "xs \<noteq> [] \<longleftrightarrow> (\<exists>x. x \<in> set xs)"
  by (cases xs) auto

lemma matcher_Then_mem:
  "r \<in> set (matcher (Then a b) s) \<longleftrightarrow> (\<exists>m. m \<in> set (matcher a s) \<and> r \<in> set (matcher b m))"
  by auto

lemma regex_test_iff:
  "regex_test rx s \<longleftrightarrow> (\<exists>pre mid. s = pre @ mid \<and> matcher rx mid \<noteq> [])"
proof (induction s)
  case Nil
  then show ?case by (simp add: regex_test.simps[of rx "[]"])
next
  case (Cons c s)
  have "(\<exists>pre mid. c # s = pre @ mid \<and> matcher rx mid \<noteq> [])
        \<longleftrightarrow> matcher rx (c # s) \<noteq> [] \<or> (\<exists>pre mid. s = pre @ mid \<and> matcher rx mid \<noteq> [])"
    (is "?L \<longleftrightarrow> ?R")
  proof
    assume ?L
    then obtain pre mid where pm: "c # s = pre @ mid" "matcher rx mid \<noteq> []" by blast
    show ?R
    proof (cases pre)
      case Nil
      with pm show ?thesis by simp
    next
      case (Cons p ps)
      with pm have "s = ps @ mid" by simp
      with pm show ?thesis by blast
    qed
  next
    assume ?R
    then show ?L
    proof
      assume "matcher rx (c # s) \<noteq> []"
      then have "c # s = [] @ (c # s) \<and> matcher rx (c # s) \<noteq> []" by simp
      then show ?L by blast
    next
      assume "\<exists>pre mid. s = pre @ mid \<and> matcher rx mid \<noteq> []"
      then obtain pre mid where "s = pre @ mid" "matcher rx mid \<noteq> []" by blast
      then have "c # s = (c # pre) @ mid \<and> matcher rx mid \<noteq> []" by simp
      then show ?L by blast
    qed
  qed
  with Cons show ?case by (simp add: regex_test.simps[of rx "c # s"])
qed

lemma sic_appendI:
  "same_ignoring_case a x \<Longrightarrow> same_ignoring_case b y \<Longrightarrow> same_ignoring_case (a @ b) (x @ y)"
  by (simp add: same_ignoring_case_def)

lemma http_split: "str ''http://'' = str ''http'' @ str ''://''"
  by (simp add: str_def)

lemma https_split: "str ''https://'' = str ''http'' @ [115] @ str ''://''"
  by (simp add: str_def)

lemma matcher_scheme_rx:
  "r \<in> set (matcher (scheme_rx b) s) \<longleftrightarrow>
     (\<exists>sc m. s = sc @ m \<and> is_scheme sc \<and> r \<in> set (matcher b m))"
  (is "?L \<longleftrightarrow> ?R")
proof
  assume ?L
  then obtain m1 m2 m3 where m1: "m1 \<in> set (matcher (lits (str ''http'')) s)"
    and m2: "m2 \<in> set (matcher (Opt (Lit 115)) m1)"
    and m3: "m3 \<in> set (matcher (lits (str ''://'')) m2)"
    and r: "r \<in> set (matcher b m3)"
    unfolding scheme_rx_def matcher_Then_mem by blast
  from m1 obtain u1 where u1: "s = u1 @ m1" "same_ignoring_case u1 (str ''http'')"
    unfolding matcher_lits by blast
  from m3 obtain u3 where u3: "m2 = u3 @ m3" "same_ignoring_case u3 (str ''://'')"
    unfolding matcher_lits by blast
  from m2 have "m2 = m1 \<or> (\<exists>u. m1 = u @ m2 \<and> same_ignoring_case u [115])"
    by (simp only: matcher_Opt_Lit)
  then show ?R
  proof
    assume "m2 = m1"
    with u1 u3 have "s = (u1 @ u3) @ m3" by simp
    moreover have "same_ignoring_case (u1 @ u3) (str ''http://'')"
      unfolding http_split using u1(2) u3(2) by (rule sic_appendI)
    ultimately show ?R using r unfolding is_scheme_def by blast
  next
    assume "\<exists>u. m1 = u @ m2 \<and> same_ignoring_case u [115]"
    then obtain u2 where u2: "m1 = u2 @ m2" "same_ignoring_case u2 [115]" by blast
    with u1 u3 have "s = (u1 @ u2 @ u3) @ m3" by simp
    moreover have "same_ignoring_case (u1 @ u2 @ u3) (str ''https://'')"
      unfolding https_split using u1(2) u2(2) u3(2) by (intro sic_appendI)
    ultimately show ?R using r unfolding is_scheme_def by blast
  qed
next
  assume ?R
  then obtain sc m where sc: "s = sc @ m" and d: "is_scheme sc" and r: "r \<in> set (matcher b m)"
    by blast
  from d have "same_ignoring_case sc (str ''http://'') \<or> same_ignoring_case sc (str ''https://'')"
    by (simp add: is_scheme_def)
  then show ?L
  proof
    assume "same_ignoring_case sc (str ''http://'')"
    then obtain u1 u3 where u: "sc = u1 @ u3" "same_ignoring_case u1 (str ''http'')"
      "same_ignoring_case u3 (str ''://'')"
      unfolding http_split sic_append by blast
    have a: "u3 @ m \<in> set (matcher (lits (str ''http'')) s)"
      unfolding matcher_lits using sc u by auto
    have b: "u3 @ m \<in> set (matcher (Opt (Lit 115)) (u3 @ m))"
      by (simp only: matcher_Opt_Lit) simp
    have c: "m \<in> set (matcher (lits (str ''://'')) (u3 @ m))"
      unfolding matcher_lits using u by auto
    from a b c r show ?L unfolding scheme_rx_def matcher_Then_mem by blast
  next
    assume "same_ignoring_case sc (str ''https://'')"
    then obtain u1 u2 u3 where u: "sc = u1 @ u2 @ u3" "same_ignoring_case u1 (str ''http'')"
      "same_ignoring_case u2 [115]" "same_ignoring_case u3 (str ''://'')"
      unfolding https_split sic_append by blast
    have a: "u2 @ u3 @ m \<in> set (matcher (lits (str ''http'')) s)"
      unfolding matcher_lits using sc u by auto
    have b: "u3 @ m \<in> set (matcher (Opt (Lit 115)) (u2 @ u3 @ m))"
      using u(3) by (simp only: matcher_Opt_Lit) blast
    have c: "m \<in> set (matcher (lits (str ''://'')) (u3 @ m))"
      unfolding matcher_lits using u by auto
    from a b c r show ?L unfolding scheme_rx_def matcher_Then_mem by blast
  qed
qed

lemma matcher_Then_Opt_nonempty:
  "(\<exists>r. r \<in> set (matcher (Then a (Opt b)) s)) \<longleftrightarrow> (\<exists>m. m \<in> set (matcher a s))"
  by auto

lemma STEAM_matcher_iff:
  "matcher STEAM_REGEX s \<noteq> [] \<longleftrightarrow> (\<exists>u post. s = u @ post \<and> steam_text u)"
proof -
  let ?T = "Opt (Then (Lit 47) (Many (NoneOf [WhiteSpace])))"
  let ?H = "lits (str ''store.steampowered.com'')"
  have eq: "STEAM_REGEX = scheme_rx (Then ?H ?T)"
    by (simp add: STEAM_REGEX_def scheme_rx_def)
  have "matcher STEAM_REGEX s \<noteq> [] \<longleftrightarrow> (\<exists>r. r \<in> set (matcher (scheme_rx (Then ?H ?T)) s))"
    unfolding eq by (rule nonempty_iff)
  also have "\<dots> \<longleftrightarrow> (\<exists>sc m. s = sc @ m \<and> is_scheme sc \<and> (\<exists>r. r \<in> set (matcher (Then ?H ?T) m)))"
    unfolding matcher_scheme_rx by blast
  also have "\<dots> \<longleftrightarrow> (\<exists>sc m. s = sc @ m \<and> is_scheme sc \<and> (\<exists>r. r \<in> set (matcher ?H m)))"
    unfolding matcher_Then_Opt_nonempty ..
  also have "\<dots> \<longleftrightarrow> (\<exists>sc h post. s = (sc @ h) @ post \<and> is_scheme sc
        \<and> same_ignoring_case h (str ''store.steampowered.com''))"
    unfolding matcher_lits by auto
  also have "\<dots> \<longleftrightarrow> (\<exists>u post. s = u @ post \<and> steam_text u)"
    unfolding steam_text_def is_scheme_def by blast
  finally show ?thesis .
qed

lemma matcher_Or_mem:
  "r \<in> set (matcher (Or a b) s) \<longleftrightarrow> r \<in> set (matcher a s) \<or> r \<in> set (matcher b s)"
  by simp

lemma YOUTUBE_matcher_iff:
  "matcher YOUTUBE_REGEX s \<noteq> [] \<longleftrightarrow> (\<exists>u post. s = u @ post \<and> youtube_text u)"
proof -
  let ?T = "Opt (Then (Lit 47) (Many (NoneOf [WhiteSpace])))"
  let ?W = "Opt (lits (str ''www.''))"
  let ?H = "Or (lits (str ''youtube.com''))
                 (Or (lits (str ''youtu.be'')) (lits (str ''m.youtube.com'')))"
  define host where "host h \<longleftrightarrow> same_ignoring_case h (str ''youtube.com'')
      \<or> same_ignoring_case h (str ''youtu.be'') \<or> same_ignoring_case h (str ''m.youtube.com'')" for h
  have eq: "YOUTUBE_REGEX = scheme_rx (Then ?W (Then ?H ?T))"
    by (simp add: YOUTUBE_REGEX_def scheme_rx_def)
  have H: "r \<in> set (matcher ?H m) \<longleftrightarrow> (\<exists>h. m = h @ r \<and> host h)" for r m
    unfolding matcher_Or_mem matcher_lits host_def by blast
  have WH: "(\<exists>r. r \<in> set (matcher (Then ?W (Then ?H ?T)) m)) \<longleftrightarrow>
     (\<exists>w h post. m = w @ h @ post \<and> (w = [] \<or> same_ignoring_case w (str ''www.'')) \<and> host h)"
    (is "?A \<longleftrightarrow> ?B") for m
  proof -
    have "?A \<longleftrightarrow> (\<exists>m1. m1 \<in> set (matcher ?W m) \<and> (\<exists>r. r \<in> set (matcher (Then ?H ?T) m1)))"
      unfolding matcher_Then_mem[of _ ?W] by blast
    also have "\<dots> \<longleftrightarrow> (\<exists>m1. m1 \<in> set (matcher ?W m) \<and> (\<exists>r. r \<in> set (matcher ?H m1)))"
      unfolding matcher_Then_Opt_nonempty ..
    also have "\<dots> \<longleftrightarrow> (\<exists>m1. (m1 = m \<or> (\<exists>u. m = u @ m1 \<and> same_ignoring_case u (str ''www.'')))
          \<and> (\<exists>r h. m1 = h @ r \<and> host h))"
      unfolding matcher_Opt_lits H by blast
    also have "\<dots> \<longleftrightarrow> ?B"
    proof
      assume "\<exists>m1. (m1 = m \<or> (\<exists>u. m = u @ m1 \<and> same_ignoring_case u (str ''www.'')))
          \<and> (\<exists>r h. m1 = h @ r \<and> host h)"
      then obtain m1 r h where d: "m1 = m \<or> (\<exists>u. m = u @ m1 \<and> same_ignoring_case u (str ''www.''))"
        and h: "m1 = h @ r" "host h" by blast
      from d show ?B
      proof
        assume "m1 = m"
        with h have "m = [] @ h @ r" by simp
        with h show ?B by blast
      next
        assume "\<exists>u. m = u @ m1 \<and> same_ignoring_case u (str ''www.'')"
        then obtain u where "m = u @ m1" "same_ignoring_case u (str ''www.'')" by blast
        with h have "m = u @ h @ r" by simp
        with h \<open>same_ignoring_case u (str ''www.'')\<close> show ?B by blast
      qed
    next
      assume ?B
      then obtain w h post where m: "m = w @ h @ post"
        and w: "w = [] \<or> same_ignoring_case w (str ''www.'')" and h: "host h" by blast
      have "(h @ post = m \<or> (\<exists>u. m = u @ h @ post \<and> same_ignoring_case u (str ''www.'')))"
        using m w by auto
      moreover have "\<exists>r h'. h @ post = h' @ r \<and> host h'" using h by blast
      ultimately show "\<exists>m1. (m1 = m \<or> (\<exists>u. m = u @ m1 \<and> same_ignoring_case u (str ''www.'')))
          \<and> (\<exists>r h. m1 = h @ r \<and> host h)" by blast
    qed
    finally show ?thesis .
  qed
  have "matcher YOUTUBE_REGEX s \<noteq> [] \<longleftrightarrow>
      (\<exists>r. r \<in> set (matcher (scheme_rx (Then ?W (Then ?H ?T))) s))"
    unfolding eq by (rule nonempty_iff)
  also have "\<dots> \<longleftrightarrow> (\<exists>sc m. s = sc @ m \<and> is_scheme sc
        \<and> (\<exists>r. r \<in> set (matcher (Then ?W (Then ?H ?T)) m)))"
    unfolding matcher_scheme_rx by blast
  also have "\<dots> \<longleftrightarrow> (\<exists>sc w h post. s = sc @ w @ h @ post \<and> is_scheme sc
        \<and> (w = [] \<or> same_ignoring_case w (str ''www.'')) \<and> host h)"
    unfolding WH by blast
  also have "\<dots> \<longleftrightarrow> (\<exists>u post. s = u @ post \<and> youtube_text u)" (is "?C \<longleftrightarrow> ?D")
  proof
    assume ?C
    then obtain sc w h post where s: "s = sc @ w @ h @ post" and p: "is_scheme sc"
      "w = [] \<or> same_ignoring_case w (str ''www.'')" "host h" by blast
    from s have "s = (sc @ w @ h) @ post" by simp
    moreover from p have "youtube_text (sc @ w @ h)"
      unfolding youtube_text_def is_scheme_def host_def by blast
    ultimately show ?D by blast
  next
    assume ?D
    then obtain u post sc w h where s: "s = u @ post" "u = sc @ w @ h" and p: "is_scheme sc"
      "w = [] \<or> same_ignoring_case w (str ''www.'')" "host h"
      unfolding youtube_text_def is_scheme_def host_def by blast
    from s have "s = sc @ w @ h @ post" by simp
    with p show ?C by blast
  qed
  finally show ?thesis .
qed

lemma regex_test_contains:
  assumes "\<And>s. matcher rx s \<noteq> [] \<longleftrightarrow> (\<exists>u post. s = u @ post \<and> P u)"
  shows "regex_test rx url \<longleftrightarrow> contains_text P url"
  unfolding regex_test_iff contains_text_def assms by blast

lemma regex_test_YOUTUBE: "regex_test YOUTUBE_REGEX url \<longleftrightarrow> contains_text youtube_text url"
  by (rule regex_test_contains) (rule YOUTUBE_matcher_iff)

lemma regex_test_STEAM: "regex_test STEAM_REGEX url \<longleftrightarrow> contains_text steam_text url"
  by (rule regex_test_contains) (rule STEAM_matcher_iff)

section \<open>Properties of the destination channels\<close>

lemma platform_call_cases:
  obtains (Throws) "platform_call w = (Throws, w\<lparr>w_calls := Suc (w_calls w)\<rparr>)"
      "w_replies w (w_calls w) = Throws"
  | (Returns) x where "platform_call w = (Returns x, w\<lparr>w_calls := Suc (w_calls w)\<rparr>)"
      "w_replies w (w_calls w) = Returns x"
  by (cases "w_replies w (w_calls w)") (auto simp: platform_call_def)

lemma enforce_fields:
  "YOUTUBE_CHANNEL_ID (enforceStrictPermissions w ch) = YOUTUBE_CHANNEL_ID w"
  "STEAM_CHANNEL_ID (enforceStrictPermissions w ch) = STEAM_CHANNEL_ID w"
  "LINKS_CHANNEL_ID (enforceStrictPermissions w ch) = LINKS_CHANNEL_ID w"
  "destinationChannels (enforceStrictPermissions w ch) = destinationChannels w"
  "w_channels (enforceStrictPermissions w ch) = w_channels w"
  "w_replies (enforceStrictPermissions w ch) = w_replies w"
  by (auto simp: enforceStrictPermissions_def platform_call_def emit_def split: reply.splits)

lemma getDestinationId_enforce [simp]:
  "getDestinationId (enforceStrictPermissions w ch) category = getDestinationId w category"
  by (cases category) (simp_all add: enforce_fields)

lemma getDestinationId_updateEnvId [simp]:
  "getDestinationId (updateEnvId w category i) category = i"
  by (cases category) simp_all

lemma updateEnvId_fields [simp]:
  "destinationChannels (updateEnvId w category i) = destinationChannels w"
  "w_channels (updateEnvId w category i) = w_channels w"
  "w_replies (updateEnvId w category i) = w_replies w"
  "w_calls (updateEnvId w category i) = w_calls w"
  "w_trace (updateEnvId w category i) = w_trace w"
  by (cases category; simp)+

lemma getDestinationId_bind [simp]:
  "getDestinationId (bind_destination w category ch) c = getDestinationId w c"
  by (cases c) (simp_all add: bind_destination_def)

lemma bind_fields [simp]:
  "destinationChannels (bind_destination w category ch) = (destinationChannels w)(category := Some ch)"
  "w_channels (bind_destination w category ch) = w_channels w"
  "w_replies (bind_destination w category ch) = w_replies w"
  "w_calls (bind_destination w category ch) = w_calls w"
  "w_trace (bind_destination w category ch) = w_trace w"
  by (simp_all add: bind_destination_def)

lemma cache_get_distinct:
  "distinct (map ch_id chans) \<Longrightarrow> c \<in> set chans \<Longrightarrow> cache_get chans (ch_id c) = Some c"
  by (induction chans) (auto simp: cache_get_def)

lemma cache_get_cache_set: "cache_get (cache_set chans c) (ch_id c) = Some c"
  by (induction chans) (auto simp: cache_get_def)

lemma find_cache_set:
  "find P chans = None \<Longrightarrow> P c \<Longrightarrow> find P (cache_set chans c) = Some c"
  by (induction chans) (auto split: if_splits)

lemma find_Some_mem: "find P xs = Some x \<Longrightarrow> x \<in> set xs \<and> P x"
  by (induction xs) (auto split: if_splits)

text \<open>The three ways in which \<open>ensureChannel\<close> resolves.\<close>

lemma ensureChannel_by_id:
  assumes "getDestinationId w category \<noteq> []" "length (getDestinationId w category) > 10"
    "cache_get (w_channels w guild) (getDestinationId w category) = Some existing"
  shows "ensureChannel w guild category =
           (enforceStrictPermissions (bind_destination w category existing) existing,
            Resolved existing)"
  using assms by (simp add: ensureChannel_def)

lemma ensureChannel_by_name:
  assumes "\<not> (getDestinationId w category \<noteq> [] \<and> length (getDestinationId w category) > 10)
           \<or> cache_get (w_channels w guild) (getDestinationId w category) = None"
    "find (\<lambda>ch. ch_name ch = c_channelName (CATEGORIES category) \<and> ch_type ch = GuildText)
        (w_channels w guild) = Some byName"
  shows "ensureChannel w guild category =
           (enforceStrictPermissions
              (updateEnvId (bind_destination w category byName) category (ch_id byName)) byName,
            Resolved byName)"
  using assms by (auto simp: ensureChannel_def Let_def)

lemma ensureChannel_create:
  assumes "\<not> (getDestinationId w category \<noteq> [] \<and> length (getDestinationId w category) > 10)
           \<or> cache_get (w_channels w guild) (getDestinationId w category) = None"
    "find (\<lambda>ch. ch_name ch = c_channelName (CATEGORIES category) \<and> ch_type ch = GuildText)
        (w_channels w guild) = None"
  shows "ensureChannel w guild category =
     (case platform_call w of
        (Throws, w1) \<Rightarrow> (w1, Rejected)
      | (Returns newId, w1) \<Rightarrow>
          (let created = \<lparr>ch_id = newId, ch_name = c_channelName (CATEGORIES category),
                           ch_type = GuildText, ch_guild = Some guild\<rparr>;
               w2 = emit (w1\<lparr>w_channels := (w_channels w1)(guild :=
                             cache_set (w_channels w1 guild) created)\<rparr>)
                         (ChannelCreate guild (c_channelName (CATEGORIES category))
                            (c_topic (CATEGORIES category)))
           in (enforceStrictPermissions
                 (updateEnvId (bind_destination w2 category created) category newId) created,
               Resolved created)))"
  using assms by (auto simp: ensureChannel_def Let_def)

lemma ensureChannel_repeat:
  assumes d: "distinct (map ch_id (w_channels w guild))"
    and r: "ensureChannel w guild category = (w1, Resolved ch)"
  shows "snd (ensureChannel w1 guild category) = Resolved ch
       \<and> destinationChannels w1 category = Some ch
       \<and> destinationChannels (fst (ensureChannel w1 guild category)) = destinationChannels w1
       \<and> w_channels (fst (ensureChannel w1 guild category)) = w_channels w1"
proof -
  let ?envId = "getDestinationId w category"
  let ?byId = "if ?envId \<noteq> [] \<and> length ?envId > 10
               then cache_get (w_channels w guild) ?envId else None"
  let ?P = "\<lambda>ch. ch_name ch = c_channelName (CATEGORIES category) \<and> ch_type ch = GuildText"
  show ?thesis
  proof (cases ?byId)
    case (Some existing)
    then have c: "?envId \<noteq> []" "length ?envId > 10"
      "cache_get (w_channels w guild) ?envId = Some existing"
      by (auto split: if_splits)
    from r ensureChannel_by_id[OF c] have w1: "w1 = enforceStrictPermissions
        (bind_destination w category existing) existing" and ch: "ch = existing" by auto
    have "ensureChannel w1 guild category =
           (enforceStrictPermissions (bind_destination w1 category existing) existing,
            Resolved existing)"
      by (rule ensureChannel_by_id) (use c in \<open>simp_all add: w1 enforce_fields\<close>)
    then show ?thesis by (simp add: ch enforce_fields w1)
  next
    case None
    then have n: "\<not> (?envId \<noteq> [] \<and> length ?envId > 10)
           \<or> cache_get (w_channels w guild) ?envId = None"
      by (auto split: if_splits)
    show ?thesis
    proof (cases "find ?P (w_channels w guild)")
      case (Some byName)
      from r ensureChannel_by_name[OF n Some] have w1: "w1 = enforceStrictPermissions
          (updateEnvId (bind_destination w category byName) category (ch_id byName)) byName"
        and ch: "ch = byName" by auto
      have chans: "w_channels w1 = w_channels w" by (simp add: w1 enforce_fields)
      have env: "getDestinationId w1 category = ch_id byName" by (simp add: w1)
      from find_Some_mem[OF Some] have mem: "byName \<in> set (w_channels w guild)" by simp
      have "ensureChannel w1 guild category =
             (enforceStrictPermissions (bind_destination w1 category byName) byName, Resolved byName)
          \<or> ensureChannel w1 guild category =
             (enforceStrictPermissions
               (updateEnvId (bind_destination w1 category byName) category (ch_id byName)) byName,
              Resolved byName)"
      proof (cases "ch_id byName \<noteq> [] \<and> length (ch_id byName) > 10")
        case True
        have "ensureChannel w1 guild category =
             (enforceStrictPermissions (bind_destination w1 category byName) byName, Resolved byName)"
          by (rule ensureChannel_by_id)
            (use True cache_get_distinct[OF d mem] in \<open>simp_all add: env chans\<close>)
        then show ?thesis ..
      next
        case False
        have "ensureChannel w1 guild category =
             (enforceStrictPermissions
               (updateEnvId (bind_destination w1 category byName) category (ch_id byName)) byName,
              Resolved byName)"
          by (rule ensureChannel_by_name) (use False Some in \<open>auto simp: env chans\<close>)
        then show ?thesis ..
      qed
      then show ?thesis by (auto simp: ch enforce_fields w1)
    next
      case fnone: None
      obtain rep w' where pc: "platform_call w = (rep, w')" by (cases "platform_call w")
      show ?thesis
      proof (cases rep)
        case Throws
        with r pc ensureChannel_create[OF n fnone] show ?thesis by simp
      next
        case (Returns newId)
        define created where "created = \<lparr>ch_id = newId,
            ch_name = c_channelName (CATEGORIES category), ch_type = GuildText,
            ch_guild = Some guild\<rparr>"
        define w2 where "w2 = emit (w'\<lparr>w_channels := (w_channels w')(guild :=
              cache_set (w_channels w' guild) created)\<rparr>)
              (ChannelCreate guild (c_channelName (CATEGORIES category))
                 (c_topic (CATEGORIES category)))"
        from r pc Returns ensureChannel_create[OF n fnone] have w1: "w1 = enforceStrictPermissions
            (updateEnvId (bind_destination w2 category created) category newId) created"
          and ch: "ch = created"
          by (auto simp: Let_def created_def w2_def)
        from pc have w': "w_channels w' = w_channels w" by (auto simp: platform_call_def)
        have chans: "w_channels w1 guild = cache_set (w_channels w guild) created"
          by (simp add: w1 enforce_fields w2_def emit_def w')
        have env: "getDestinationId w1 category = newId" by (simp add: w1)
        have id: "ch_id created = newId" and P: "?P created" by (simp_all add: created_def)
        have "ensureChannel w1 guild category =
             (enforceStrictPermissions (bind_destination w1 category created) created, Resolved created)
          \<or> ensureChannel w1 guild category =
             (enforceStrictPermissions
               (updateEnvId (bind_destination w1 category created) category (ch_id created)) created,
              Resolved created)"
        proof (cases "newId \<noteq> [] \<and> length newId > 10")
          case True
          have "ensureChannel w1 guild category =
             (enforceStrictPermissions (bind_destination w1 category created) created, Resolved created)"
            by (rule ensureChannel_by_id)
              (use True cache_get_cache_set[of "w_channels w guild" created] in
                \<open>simp_all add: env chans id\<close>)
          then show ?thesis ..
        next
          case False
          have "ensureChannel w1 guild category =
             (enforceStrictPermissions
               (updateEnvId (bind_destination w1 category created) category (ch_id created)) created,
              Resolved created)"
            by (rule ensureChannel_by_name)
              (use False find_cache_set[of ?P "w_channels w guild" created, OF fnone P] in
                \<open>auto simp: env chans\<close>)
          then show ?thesis ..
        qed
        then show ?thesis by (auto simp: ch enforce_fields w1)
      qed
    qed
  qed
qed

section \<open>Properties of the thread on the latest link embed\<close>

lemma is_link_embed_cong:
  "w_client_user w' = w_client_user w \<Longrightarrow> is_link_embed w' = is_link_embed w"
  by (rule ext) (simp add: is_link_embed_def)

lemma is_link_embed_upd [simp]:
  "is_link_embed (w\<lparr>w_calls := n\<rparr>) = is_link_embed w"
  "is_link_embed (w\<lparr>w_trace := tr\<rparr>) = is_link_embed w"
  "is_link_embed (w\<lparr>w_threads := th\<rparr>) = is_link_embed w"
  "is_link_embed (w\<lparr>w_history := h\<rparr>) = is_link_embed w"
  by (rule is_link_embed_cong, simp)+

lemma is_link_embed_hasThread [simp]:
  "is_link_embed w (x\<lparr>m_hasThread := b\<rparr>) = is_link_embed w x"
  by (simp add: is_link_embed_def)

lemma replies_okD:
  "replies_ok w k \<Longrightarrow> i < k \<Longrightarrow> \<exists>x. w_replies w (w_calls w + i) = Returns x"
  unfolding replies_ok_def by (cases "w_replies w (w_calls w + i)") auto


lemma latest_thread_none:
  assumes "replies_ok w 1"
  shows "snd (getOrCreateLatestThread w ch) = Resolved None \<longleftrightarrow>
         \<not> (\<exists>m\<in>set (take 50 (w_history w (ch_id ch))). is_link_embed w m)"
proof -
  from replies_okD[OF assms, of 0] obtain x where x: "w_replies w (w_calls w) = Returns x"
    by auto
  show ?thesis
  proof (cases "find (is_link_embed w) (take 50 (w_history w (ch_id ch)))")
    case None
    then have "snd (getOrCreateLatestThread w ch) = Resolved None"
      using x by (simp add: getOrCreateLatestThread_def platform_call_def)
    moreover from None have "\<not> (\<exists>m\<in>set (take 50 (w_history w (ch_id ch))). is_link_embed w m)"
      by (auto simp: find_None_iff)
    ultimately show ?thesis by simp
  next
    case (Some m)
    then have "\<exists>m\<in>set (take 50 (w_history w (ch_id ch))). is_link_embed w m"
      using find_Some_mem[of "is_link_embed w" "take 50 (w_history w (ch_id ch))" m] by blast
    then show ?thesis
      using x Some
      by (auto simp: getOrCreateLatestThread_def platform_call_def Let_def
               split: prod.splits option.splits reply.splits)
  qed
qed








section \<open>The effects of the live handler\<close>

lemma extends_refl [simp]: "extends P w w"
  by (simp add: extends_def)

lemma extends_same: "w_trace b = w_trace a \<Longrightarrow> extends P a b"
  by (simp add: extends_def)

lemma extends_trans: "extends P a b \<Longrightarrow> extends P b c \<Longrightarrow> extends P a c"
  unfolding extends_def
proof -
  assume "\<exists>evs. w_trace b = w_trace a @ evs \<and> (\<forall>e\<in>set evs. P e)"
    "\<exists>evs. w_trace c = w_trace b @ evs \<and> (\<forall>e\<in>set evs. P e)"
  then obtain e1 e2 where "w_trace b = w_trace a @ e1" "\<forall>e\<in>set e1. P e"
    "w_trace c = w_trace b @ e2" "\<forall>e\<in>set e2. P e" by blast
  then have "w_trace c = w_trace a @ (e1 @ e2) \<and> (\<forall>e\<in>set (e1 @ e2). P e)" by auto
  then show "\<exists>evs. w_trace c = w_trace a @ evs \<and> (\<forall>e\<in>set evs. P e)" by blast
qed

lemma extends_emit: "extends P a b \<Longrightarrow> P e \<Longrightarrow> extends P a (emit b e)"
  unfolding extends_def emit_def
proof -
  assume "\<exists>evs. w_trace b = w_trace a @ evs \<and> (\<forall>e\<in>set evs. P e)" "P e"
  then obtain e1 where "w_trace b = w_trace a @ e1" "\<forall>e\<in>set e1. P e" by blast
  with \<open>P e\<close> have "w_trace (b\<lparr>w_trace := w_trace b @ [e]\<rparr>) = w_trace a @ (e1 @ [e])
      \<and> (\<forall>x\<in>set (e1 @ [e]). P x)" by auto
  then show "\<exists>evs. w_trace (b\<lparr>w_trace := w_trace b @ [e]\<rparr>) = w_trace a @ evs
      \<and> (\<forall>e\<in>set evs. P e)" by blast
qed

lemma extends_mono: "extends P a b \<Longrightarrow> (\<And>e. P e \<Longrightarrow> Q e) \<Longrightarrow> extends Q a b"
  unfolding extends_def by blast

lemma platform_call_trace [simp]: "w_trace (snd (platform_call w)) = w_trace w"
  by (simp add: platform_call_def)

lemma platform_call_eq:
  "platform_call w = (r, w') \<Longrightarrow> w' = w\<lparr>w_calls := Suc (w_calls w)\<rparr> \<and> r = w_replies w (w_calls w)"
  by (auto simp: platform_call_def)

lemma channel_send_extends:
  "channel_send w ch p = (w', r) \<Longrightarrow> P (ChannelSend (ch_id ch) p) \<Longrightarrow> extends P w w'"
  by (cases p)
     (auto simp: channel_send_def platform_call_def Let_def extends_def emit_def
           split: reply.splits)

lemma message_delete_extends:
  "message_delete w m = (w', r) \<Longrightarrow> P (MessageDelete m) \<Longrightarrow> extends P w w'"
  by (auto simp: message_delete_def platform_call_def extends_def emit_def split: reply.splits)

lemma thread_send_extends:
  "thread_send w t p = (w', r) \<Longrightarrow> P (ThreadSend (t_id t) p) \<Longrightarrow> extends P w w'"
  by (auto simp: thread_send_def platform_call_def extends_def emit_def split: reply.splits)

lemma existing_thread_extends:
  "existing_thread w m = (w', r) \<Longrightarrow> (\<And>i. P (ThreadUnarchive i)) \<Longrightarrow> extends P w w'"
  by (auto simp: existing_thread_def platform_call_def extends_def emit_def Let_def
           split: if_splits option.splits reply.splits)

lemma latest_thread_extends:
  assumes "getOrCreateLatestThread w ch = (w', r)"
    and "\<And>i. P (ThreadUnarchive i)" "\<And>i n. P (ThreadStart i n)"
  shows "extends P w w'"
proof -
  obtain rep w0 where pc: "platform_call w = (rep, w0)" by (cases "platform_call w")
  then have e0: "extends P w w0" by (auto simp: platform_call_def extends_def)
  show ?thesis
  proof (cases rep)
    case Throws
    with assms(1) pc e0 show ?thesis by (simp add: getOrCreateLatestThread_def)
  next
    case (Returns x)
    show ?thesis
    proof (cases "find (is_link_embed w0) (take 50 (w_history w0 (ch_id ch)))")
      case None
      with assms(1) pc Returns e0 show ?thesis by (auto simp: getOrCreateLatestThread_def)
    next
      case (Some m)
      obtain w2 et where et: "existing_thread w0 m = (w2, et)" by (cases "existing_thread w0 m")
      from existing_thread_extends[where P=P, OF et assms(2)] e0 have e2: "extends P w w2"
        by (blast intro: extends_trans)
      show ?thesis
      proof (cases et)
        case (Some t)
        with assms(1) pc Returns \<open>find (is_link_embed w0) _ = Some m\<close> et e2
        show ?thesis by (auto simp: getOrCreateLatestThread_def)
      next
        case None
        obtain rep3 w3 where pc3: "platform_call w2 = (rep3, w3)" by (cases "platform_call w2")
        then have "extends P w2 w3" by (auto simp: platform_call_def extends_def)
        with e2 have e3: "extends P w w3" by (blast intro: extends_trans)
        show ?thesis
        proof (cases rep3)
          case Throws
          with assms(1) pc Returns \<open>find (is_link_embed w0) _ = Some m\<close> et None pc3 e3
          show ?thesis by (simp add: getOrCreateLatestThread_def)
        next
          case R3: (Returns tid)
          let ?w4 = "w3\<lparr>w_threads := (w_threads w3)(m_id m := Some \<lparr>t_id = tid, t_archived = False\<rparr>),
                        w_history := (w_history w3)(ch_id ch :=
                           map (\<lambda>x. if m_id x = m_id m then x\<lparr>m_hasThread := True\<rparr> else x)
                               (w_history w3 (ch_id ch)))\<rparr>"
          from assms(1) pc Returns \<open>find (is_link_embed w0) _ = Some m\<close> et None pc3 R3
          have w': "w' = emit ?w4 (ThreadStart (m_id m) (thread_name w3 m))"
            by (auto simp: getOrCreateLatestThread_def Let_def)
          have "extends P w3 ?w4" by (simp add: extends_def)
          with e3 have "extends P w ?w4" by (blast intro: extends_trans)
          then show ?thesis unfolding w' using assms(3) by (rule extends_emit)
        qed
      qed
    qed
  qed
qed

lemma strict_mode_after:
  assumes d: "message_delete w message = (w1, b)"
    and "\<And>i. P (ThreadUnarchive i)" "\<And>i n. P (ThreadStart i n)"
    "\<And>i p. P (ThreadSend i p)" "\<And>c. P (ChannelSend (ch_id (m_channel message)) (Payload (Some c) [] []))"
    "\<And>n m. P (DeleteLater n m)"
  shows "extends P w1 (strict_mode w message)"
proof (cases b)
  case False
  with d show ?thesis by (simp add: strict_mode_def)
next
  case True
  obtain w2 r where g: "getOrCreateLatestThread w1 (m_channel message) = (w2, r)"
    by (cases "getOrCreateLatestThread w1 (m_channel message)")
  from latest_thread_extends[where P=P, OF g assms(2,3)] have e2: "extends P w1 w2" .
  show ?thesis
  proof (cases r)
    case Rejected
    with d True g e2 show ?thesis by (simp add: strict_mode_def)
  next
    case (Resolved tr)
    show ?thesis
    proof (cases tr)
      case None
      obtain w3 s where s: "channel_send w2 (m_channel message) (no_links_notice message) = (w3, s)"
        by (cases "channel_send w2 (m_channel message) (no_links_notice message)")
      from channel_send_extends[where P=P, OF s] assms(5) have "extends P w2 w3"
        by (simp add: no_links_notice_def)
      with e2 have e3: "extends P w1 w3" by (blast intro: extends_trans)
      show ?thesis
      proof (cases s)
        case None
        with d True g Resolved \<open>tr = None\<close> s e3 show ?thesis by (simp add: strict_mode_def)
      next
        case (Some warning)
        from extends_emit[OF e3 assms(6)[of 15000 warning]]
        show ?thesis using d True g Resolved \<open>tr = None\<close> s Some by (simp add: strict_mode_def)
      qed
    next
      case (Some t)
      obtain w3 b3 where ts: "thread_send w2 t (repost_payload message) = (w3, b3)"
        by (cases "thread_send w2 t (repost_payload message)")
      from thread_send_extends[where P=P, OF ts assms(4)] e2 have e3: "extends P w1 w3"
        by (blast intro: extends_trans)
      show ?thesis
      proof (cases b3)
        case False
        with d True g Resolved Some ts e3 show ?thesis by (simp add: strict_mode_def)
      next
        case T3: True
        obtain w4 s where s: "channel_send w3 (m_channel message) (moved_notice message t) = (w4, s)"
          by (cases "channel_send w3 (m_channel message) (moved_notice message t)")
        from channel_send_extends[where P=P, OF s] assms(5) have "extends P w3 w4"
          by (simp add: moved_notice_def)
        with e3 have e4: "extends P w1 w4" by (blast intro: extends_trans)
        show ?thesis
        proof (cases s)
          case None
          with d True g Resolved Some ts T3 s e4 show ?thesis by (simp add: strict_mode_def)
        next
          case S: (Some notice)
          from extends_emit[OF e4 assms(6)[of 10000 notice]]
          show ?thesis using d True g Resolved Some ts T3 s S by (simp add: strict_mode_def)
        qed
      qed
    qed
  qed
qed

lemma strict_mode_extends:
  assumes "P (MessageDelete message)" "\<And>i. P (ThreadUnarchive i)" "\<And>i n. P (ThreadStart i n)"
    "\<And>i p. P (ThreadSend i p)" "\<And>c. P (ChannelSend (ch_id (m_channel message)) (Payload (Some c) [] []))"
    "\<And>n m. P (DeleteLater n m)"
  shows "extends P w (strict_mode w message)"
proof -
  obtain w1 b where d: "message_delete w message = (w1, b)" by (cases "message_delete w message")
  from message_delete_extends[where P=P, OF d assms(1)] have "extends P w w1" .
  moreover from strict_mode_after[where P=P, OF d assms(2-6)]
  have "extends P w1 (strict_mode w message)" .
  ultimately show ?thesis by (rule extends_trans)
qed

lemma delete_then_notice_extends:
  assumes "P (MessageDelete message)"
    "\<And>c. P (ChannelSend (ch_id (m_channel message)) (Payload (Some c) [] []))"
    "\<And>n m. P (DeleteLater n m)"
  shows "extends P w
     (case message_delete w message of
        (w1, False) \<Rightarrow> w1
      | (w1, True) \<Rightarrow>
          (case channel_send w1 (m_channel message) (Payload (Some c) [] []) of
             (w2, None) \<Rightarrow> w2
           | (w2, Some warning) \<Rightarrow> emit w2 (DeleteLater 10000 warning)))"
proof -
  obtain w1 b where d: "message_delete w message = (w1, b)" by (cases "message_delete w message")
  from message_delete_extends[where P=P, OF d assms(1)] have e1: "extends P w w1" .
  show ?thesis
  proof (cases b)
    case False
    with d e1 show ?thesis by simp
  next
    case True
    obtain w2 s where s: "channel_send w1 (m_channel message) (Payload (Some c) [] []) = (w2, s)"
      by (cases "channel_send w1 (m_channel message) (Payload (Some c) [] [])")
    from channel_send_extends[where P=P, OF s assms(2)] e1 have e2: "extends P w w2"
      by (blast intro: extends_trans)
    show ?thesis
    proof (cases s)
      case None
      with d True s e2 show ?thesis by simp
    next
      case (Some warning)
      from extends_emit[OF e2 assms(3)[of 10000 warning]]
      show ?thesis using d True s Some by simp
    qed
  qed
qed

lemma private_block_extends:
  assumes "P (MessageDelete message)"
    "\<And>c. P (ChannelSend (ch_id (m_channel message)) (Payload (Some c) [] []))"
    "\<And>n m. P (DeleteLater n m)"
  shows "extends P w (private_block w message)"
  unfolding private_block_def private_notice_def
  by (rule delete_then_notice_extends[OF assms])

lemma notify_moved_extends:
  assumes "P (MessageDelete message)"
    "\<And>c. P (ChannelSend (ch_id (m_channel message)) (Payload (Some c) [] []))"
    "\<And>n m. P (DeleteLater n m)"
  shows "extends P w (notify_moved w message routed)"
  unfolding notify_moved_def
  by (rule delete_then_notice_extends[OF assms])

lemma route_extends:
  "route w message toRoute routed = (w', r) \<Longrightarrow>
     extends (summary_of (m_channel message) message) w w'"
proof (induction toRoute arbitrary: w routed)
  case Nil
  then show ?case by simp
next
  case (Cons g rest)
  obtain category urls where g: "g = (category, urls)" by (cases g)
  show ?case
  proof (cases "destinationChannels w category")
    case None
    with Cons g show ?thesis by simp
  next
    case (Some destChannel)
    let ?p = "embed_payload (buildLinkEmbed w category urls (m_author message)
                (Some (m_channel message)) (Some (m_createdAt message)))"
    obtain w1 s where s: "channel_send w destChannel ?p = (w1, s)"
      by (cases "channel_send w destChannel ?p")
    have "summary_of (m_channel message) message (ChannelSend (ch_id destChannel) ?p)"
      unfolding summary_of_def by blast
    with channel_send_extends[where P="summary_of (m_channel message) message", OF s] have e1: "extends (summary_of (m_channel message) message) w w1"
      by blast
    show ?thesis
    proof (cases s)
      case None
      with Cons.prems g Some s e1 show ?thesis by simp
    next
      case S: (Some sent)
      with Cons.prems g Some s have "route w1 message rest
          (routed @ [(category, ch_id destChannel, c_icon (CATEGORIES category))]) = (w', r)"
        by simp
      from Cons.IH[OF this] e1 show ?thesis by (blast intro: extends_trans)
    qed
  qed
qed

lemma two_phase:
  assumes "extends S w w1" "extends Q w1 w2"
  shows "\<exists>sends rest. w_trace w2 = w_trace w @ sends @ rest
           \<and> (\<forall>e\<in>set sends. S e) \<and> (\<forall>e\<in>set rest. Q e)"
proof -
  from assms obtain e1 e2 where "w_trace w1 = w_trace w @ e1" "\<forall>e\<in>set e1. S e"
    "w_trace w2 = w_trace w1 @ e2" "\<forall>e\<in>set e2. Q e"
    unfolding extends_def by blast
  then have "w_trace w2 = w_trace w @ e1 @ e2 \<and> (\<forall>e\<in>set e1. S e) \<and> (\<forall>e\<in>set e2. Q e)"
    by simp
  then show ?thesis by blast
qed

lemma summary_of_is_embed_send: "summary_of src msg e \<Longrightarrow> is_embed_send e"
  by (auto simp: summary_of_def embed_payload_def)

lemma messageCreate_shape:
  "\<exists>sends rest. w_trace (fst (messageCreate w message)) = w_trace w @ sends @ rest
      \<and> (\<forall>e\<in>set sends. summary_of (m_channel message) message e)
      \<and> (\<forall>e\<in>set rest. \<not> is_embed_send e)
      \<and> (snd (messageCreate w message) = Rejected \<longrightarrow> rest = [])"
proof -
  let ?S = "summary_of (m_channel message) message"
  let ?Q = "\<lambda>e. \<not> is_embed_send e"
  let ?goal = "\<lambda>w' r. \<exists>sends rest. w_trace w' = w_trace w @ sends @ rest
      \<and> (\<forall>e\<in>set sends. ?S e) \<and> (\<forall>e\<in>set rest. ?Q e) \<and> (r = Rejected \<longrightarrow> rest = [])"
  have idle: "?goal w (Resolved ())" by simp
  have quiet: "?goal w' (Resolved ())" if "extends ?Q w w'" for w'
    using two_phase[OF extends_refl[of ?S w] that] by auto
  have strict: "extends ?Q w (strict_mode w message)"
    by (rule strict_mode_extends) simp_all
  have priv: "extends ?Q w (private_block w message)"
    by (rule private_block_extends) simp_all
  let ?urls = "match_global URL_REGEX (m_content message)"
  let ?toRoute = "filter (\<lambda>(category, urls).
        getDestinationId w category \<noteq> ch_id (m_channel message)) (group_urls ?urls [])"
  obtain w1 r where rt: "route w message ?toRoute [] = (w1, r)"
    by (cases "route w message ?toRoute []")
  from route_extends[OF rt] have e1: "extends ?S w w1" .
  then obtain sends where sends: "w_trace w1 = w_trace w @ sends @ []" "\<forall>e\<in>set sends. ?S e"
    unfolding extends_def by auto
  then have only_sends: "?goal w1 r'" for r' :: "unit promise"
    by (intro exI[of _ sends] exI[of _ "[]"]) simp
  have routed: "?goal (fst (case r of Rejected \<Rightarrow> (w1, Rejected)
       | Resolved routed \<Rightarrow> if routed = [] then (w1, Resolved ())
                            else (notify_moved w1 message routed, Resolved ())))
     (snd (case r of Rejected \<Rightarrow> (w1, Rejected)
       | Resolved routed \<Rightarrow> if routed = [] then (w1, Resolved ())
                            else (notify_moved w1 message routed, Resolved ())))"
  proof (cases r)
    case Rejected
    from only_sends[of Rejected] show ?thesis
      unfolding Rejected by simp
  next
    case (Resolved routed)
    show ?thesis
    proof (cases "routed = []")
      case True
      from only_sends[of "Resolved ()"] show ?thesis
        unfolding Resolved using True by simp
    next
      case False
      have "extends ?Q w1 (notify_moved w1 message routed)"
        by (rule notify_moved_extends) simp_all
      from two_phase[OF e1 this] show ?thesis
        unfolding Resolved using False by auto
    qed
  qed
  show ?thesis
    unfolding messageCreate_def Let_def
    using idle quiet[OF strict] quiet[OF priv] routed rt
    by (auto simp del: is_embed_send.simps)
qed

lemma calm_call:
  "calm w \<Longrightarrow> \<exists>x. platform_call w = (Returns x, w\<lparr>w_calls := Suc (w_calls w)\<rparr>)"
  unfolding calm_def platform_call_def by (cases "w_replies w (w_calls w)") auto

lemma calm_replies_ok: "calm w \<Longrightarrow> replies_ok w k"
  by (simp add: calm_def replies_ok_def)

lemma calm_cong: "w_replies w' = w_replies w \<Longrightarrow> calm w' = calm w"
  by (simp add: calm_def)

lemma existing_thread_replies:
  "existing_thread w m = (w', r) \<Longrightarrow>
     w_replies w' = w_replies w \<and> w_client_user w' = w_client_user w"
  by (auto simp: existing_thread_def platform_call_def emit_def Let_def
           split: if_splits option.splits reply.splits)

lemma latest_thread_replies:
  assumes "getOrCreateLatestThread w ch = (w', r)"
  shows "w_replies w' = w_replies w \<and> w_client_user w' = w_client_user w"
proof -
  obtain rep w0 where pc: "platform_call w = (rep, w0)" by (cases "platform_call w")
  then have r0: "w_replies w0 = w_replies w \<and> w_client_user w0 = w_client_user w"
    by (auto simp: platform_call_def)
  show ?thesis
  proof (cases rep)
    case Throws
    with assms pc r0 show ?thesis by (simp add: getOrCreateLatestThread_def)
  next
    case (Returns x)
    show ?thesis
    proof (cases "find (is_link_embed w0) (take 50 (w_history w0 (ch_id ch)))")
      case None
      with assms pc Returns r0 show ?thesis by (auto simp: getOrCreateLatestThread_def)
    next
      case (Some m)
      obtain w2 et where et: "existing_thread w0 m = (w2, et)" by (cases "existing_thread w0 m")
      from existing_thread_replies[OF et] r0
      have r2: "w_replies w2 = w_replies w \<and> w_client_user w2 = w_client_user w" by simp
      show ?thesis
      proof (cases et)
        case (Some t)
        with assms pc Returns \<open>find (is_link_embed w0) _ = Some m\<close> et r2
        show ?thesis by (auto simp: getOrCreateLatestThread_def)
      next
        case None
        obtain rep3 w3 where pc3: "platform_call w2 = (rep3, w3)" by (cases "platform_call w2")
        then have r3: "w_replies w3 = w_replies w \<and> w_client_user w3 = w_client_user w"
          using r2 by (auto simp: platform_call_def)
        from assms pc Returns \<open>find (is_link_embed w0) _ = Some m\<close> et None pc3 r3
        show ?thesis
          by (cases rep3) (auto simp: getOrCreateLatestThread_def Let_def emit_def)
      qed
    qed
  qed
qed

lemma latest_thread_calm:
  assumes "calm w" "getOrCreateLatestThread w ch = (w', r)"
  shows "\<exists>tr. r = Resolved tr"
proof -
  from calm_call[OF assms(1)] obtain x where
    pc: "platform_call w = (Returns x, w\<lparr>w_calls := Suc (w_calls w)\<rparr>)" by blast
  let ?w0 = "w\<lparr>w_calls := Suc (w_calls w)\<rparr>"
  show ?thesis
  proof (cases "find (is_link_embed ?w0) (take 50 (w_history ?w0 (ch_id ch)))")
    case None
    with assms(2) pc show ?thesis by (auto simp: getOrCreateLatestThread_def)
  next
    case (Some m)
    obtain w2 et where et: "existing_thread ?w0 m = (w2, et)" by (cases "existing_thread ?w0 m")
    from existing_thread_replies[OF et] assms(1) have "calm w2" by (simp add: calm_def)
    from calm_call[OF this] obtain y where
      pc2: "platform_call w2 = (Returns y, w2\<lparr>w_calls := Suc (w_calls w2)\<rparr>)" by blast
    from assms(2) pc Some et pc2 show ?thesis
      by (cases et) (auto simp: getOrCreateLatestThread_def Let_def)
  qed
qed

lemma message_delete_calm:
  assumes "calm w" "message_delete w m = (w1, deleted)"
  shows "deleted \<and> w_trace w1 = w_trace w @ [MessageDelete m] \<and> w_replies w1 = w_replies w
     \<and> w_client_user w1 = w_client_user w
     \<and> w_history w1 (ch_id (m_channel m))
         = filter (\<lambda>x. m_id x \<noteq> m_id m) (w_history w (ch_id (m_channel m)))"
  using calm_call[OF assms(1)] assms(2) by (auto simp: message_delete_def emit_def)

lemma thread_send_calm:
  assumes "calm w"
  shows "\<exists>w'. thread_send w t p = (w', True) \<and> w_trace w' = w_trace w @ [ThreadSend (t_id t) p]
     \<and> w_replies w' = w_replies w \<and> w_client_user w' = w_client_user w"
  using calm_call[OF assms] by (auto simp: thread_send_def emit_def)

lemma channel_send_calm:
  assumes "calm w"
  shows "\<exists>w' sent. channel_send w ch (Payload (Some c) [] []) = (w', Some sent)
     \<and> w_trace w' = w_trace w @ [ChannelSend (ch_id ch) (Payload (Some c) [] [])]
     \<and> m_author sent = w_client_user w \<and> m_channel sent = ch \<and> m_content sent = c"
  using calm_call[OF assms] by (auto simp: channel_send_def emit_def Let_def)

lemma strict_mode_calm:
  assumes c: "calm w"
    and d: "message_delete w message = (w1, deleted)"
    and g: "getOrCreateLatestThread w1 (m_channel message) = (w2, r)"
  shows "deleted \<and> w_trace w1 = w_trace w @ [MessageDelete message]
     \<and> w_history w1 (ch_id (m_channel message))
         = filter (\<lambda>x. m_id x \<noteq> m_id message) (w_history w (ch_id (m_channel message)))
     \<and> extends (\<lambda>e. (\<exists>i. e = ThreadUnarchive i) \<or> (\<exists>i n. e = ThreadStart i n)) w1 w2
     \<and> (\<exists>tr. r = Resolved tr
          \<and> (tr = None \<longleftrightarrow>
               \<not> (\<exists>m\<in>set (take 50 (w_history w1 (ch_id (m_channel message)))). is_link_embed w m))
          \<and> (case tr of
               Some t \<Rightarrow>
                 (\<exists>notice. m_author notice = w_client_user w \<and> m_channel notice = m_channel message
                    \<and> m_content notice =
                        [55357, 56492, 32] @ (str ''<@'' @ u_id (m_author message) @ str ''>'')
                        @ str '' Your message was moved to the discussion thread: ''
                        @ str ''<#'' @ t_id t @ str ''>''
                        @ str ''. Please use threads to discuss links!''
                    \<and> w_trace (strict_mode w message) = w_trace w2 @
                        [ThreadSend (t_id t)
                           (Payload
                              (Some (str ''**''
                                 @ (if u_displayName (m_author message) \<noteq> []
                                    then u_displayName (m_author message)
                                    else u_username (m_author message))
                                 @ str ''** said:'' @ [10] @ str ''> ''
                                 @ (if m_content message \<noteq> [] then m_content message
                                    else str ''*(no text)*'')))
                              [] (m_attachments message)),
                         ChannelSend (ch_id (m_channel message))
                           (Payload (Some (m_content notice)) [] []),
                         DeleteLater 10000 notice])
             | None \<Rightarrow>
                 (\<exists>warning. m_author warning = w_client_user w
                    \<and> m_channel warning = m_channel message
                    \<and> m_content warning =
                        [55357, 56492, 32] @ (str ''<@'' @ u_id (m_author message) @ str ''>'')
                        @ str '' This channel is for links only! ''
                        @ str ''No links have been posted yet to create a thread on. ''
                        @ str ''Please wait for a link to be posted, then create a thread to discuss it.''
                    \<and> w_trace (strict_mode w message) = w_trace w2 @
                        [ChannelSend (ch_id (m_channel message))
                           (Payload (Some (m_content warning)) [] []),
                         DeleteLater 15000 warning])))"
proof -
  from message_delete_calm[OF c d] have del: "deleted"
    and tr1: "w_trace w1 = w_trace w @ [MessageDelete message]"
    and r1: "w_replies w1 = w_replies w" and u1: "w_client_user w1 = w_client_user w"
    and h1: "w_history w1 (ch_id (m_channel message))
         = filter (\<lambda>x. m_id x \<noteq> m_id message) (w_history w (ch_id (m_channel message)))"
    by simp_all
  from r1 c have c1: "calm w1" by (simp add: calm_def)
  from latest_thread_calm[OF c1 g] obtain tr where r: "r = Resolved tr" by blast
  from latest_thread_replies[OF g] c1 have c2: "calm w2" by (simp add: calm_def)
  have ext: "extends (\<lambda>e. (\<exists>i. e = ThreadUnarchive i) \<or> (\<exists>i n. e = ThreadStart i n)) w1 w2"
    by (rule latest_thread_extends[OF g]) blast+
  from latest_thread_replies[OF g] u1 have u2: "w_client_user w2 = w_client_user w" by simp
  have none: "tr = None \<longleftrightarrow>
      \<not> (\<exists>m\<in>set (take 50 (w_history w1 (ch_id (m_channel message)))). is_link_embed w m)"
    using latest_thread_none[OF calm_replies_ok[OF c1, of 1], of "m_channel message"] g r
      is_link_embed_cong[OF u1] by simp
  show ?thesis
  proof (cases tr)
    case None
    let ?c = "[55357, 56492, 32] @ (str ''<@'' @ u_id (m_author message) @ str ''>'')
                        @ str '' This channel is for links only! ''
                        @ str ''No links have been posted yet to create a thread on. ''
                        @ str ''Please wait for a link to be posted, then create a thread to discuss it.''"
    have p: "no_links_notice message = Payload (Some ?c) [] []"
      by (simp add: no_links_notice_def mention_def)
    from channel_send_calm[OF c2, of "m_channel message" ?c]
    obtain w3 warning where s: "channel_send w2 (m_channel message) (Payload (Some ?c) [] [])
        = (w3, Some warning)"
      "w_trace w3 = w_trace w2 @ [ChannelSend (ch_id (m_channel message)) (Payload (Some ?c) [] [])]"
      "m_author warning = w_client_user w2" "m_channel warning = m_channel message"
      "m_content warning = ?c" by blast
    have "strict_mode w message = emit w3 (DeleteLater 15000 warning)"
      using d del g r None s(1) p by (simp add: strict_mode_def)
    then have t: "w_trace (strict_mode w message) = w_trace w2 @
        [ChannelSend (ch_id (m_channel message)) (Payload (Some (m_content warning)) [] []),
         DeleteLater 15000 warning]"
      using s(2,5) by (simp add: emit_def)
    from s(3,4,5) u2 t have "\<exists>warning. m_author warning = w_client_user w
                    \<and> m_channel warning = m_channel message
                    \<and> m_content warning = ?c
                    \<and> w_trace (strict_mode w message) = w_trace w2 @
                        [ChannelSend (ch_id (m_channel message))
                           (Payload (Some (m_content warning)) [] []),
                         DeleteLater 15000 warning]"
      by (intro exI[of _ warning]) simp
    with del tr1 h1 ext r none None show ?thesis by simp
  next
    case (Some t)
    let ?text = "str ''**''
                 @ (if u_displayName (m_author message) \<noteq> []
                    then u_displayName (m_author message) else u_username (m_author message))
                 @ str ''** said:'' @ [10] @ str ''> ''
                 @ (if m_content message \<noteq> [] then m_content message else str ''*(no text)*'')"
    let ?c = "[55357, 56492, 32] @ (str ''<@'' @ u_id (m_author message) @ str ''>'')
                        @ str '' Your message was moved to the discussion thread: ''
                        @ str ''<#'' @ t_id t @ str ''>''
                        @ str ''. Please use threads to discuss links!''"
    have p: "repost_payload message = Payload (Some ?text) [] (m_attachments message)"
      "moved_notice message t = Payload (Some ?c) [] []"
      by (simp_all add: repost_payload_def moved_notice_def mention_def display_name_def)
    from thread_send_calm[OF c2, of t "repost_payload message"]
    obtain w3 where ts: "thread_send w2 t (repost_payload message) = (w3, True)"
      "w_trace w3 = w_trace w2 @ [ThreadSend (t_id t) (repost_payload message)]"
      "w_replies w3 = w_replies w2" "w_client_user w3 = w_client_user w2" by blast
    from ts(3) c2 have c3: "calm w3" by (simp add: calm_def)
    from channel_send_calm[OF c3, of "m_channel message" ?c]
    obtain w4 notice where s: "channel_send w3 (m_channel message) (Payload (Some ?c) [] [])
        = (w4, Some notice)"
      "w_trace w4 = w_trace w3 @ [ChannelSend (ch_id (m_channel message)) (Payload (Some ?c) [] [])]"
      "m_author notice = w_client_user w3" "m_channel notice = m_channel message"
      "m_content notice = ?c" by blast
    have "strict_mode w message = emit w4 (DeleteLater 10000 notice)"
      using d del g r Some ts(1) s(1) p(2) by (simp add: strict_mode_def)
    then have t: "w_trace (strict_mode w message) = w_trace w2 @
        [ThreadSend (t_id t) (Payload (Some ?text) [] (m_attachments message)),
         ChannelSend (ch_id (m_channel message)) (Payload (Some (m_content notice)) [] []),
         DeleteLater 10000 notice]"
      using s(2,5) ts(2) p(1) by (simp add: emit_def)
    from s(3,4,5) ts(4) u2 t have "\<exists>notice. m_author notice = w_client_user w
        \<and> m_channel notice = m_channel message
        \<and> m_content notice = ?c
        \<and> w_trace (strict_mode w message) = w_trace w2 @
            [ThreadSend (t_id t) (Payload (Some ?text) [] (m_attachments message)),
             ChannelSend (ch_id (m_channel message)) (Payload (Some (m_content notice)) [] []),
             DeleteLater 10000 notice]"
      by (intro exI[of _ notice]) simp
    with del tr1 h1 ext r none Some show ?thesis by simp
  qed
qed

lemma buildLinkEmbed_Some_world:
  "buildLinkEmbed w c us u s (Some t) = buildLinkEmbed w' c us u s (Some t)"
  by (simp add: buildLinkEmbed_def Let_def)

lemma expected_sends_cong:
  "destinationChannels w' = destinationChannels w \<Longrightarrow>
     expected_sends w' m g = expected_sends w m g"
proof (induction g)
  case Nil
  then show ?case by simp
next
  case (Cons x g)
  obtain c us where x: "x = (c, us)" by (cases x)
  from Cons show ?case
    unfolding x
    by (simp add: buildLinkEmbed_Some_world[of w' _ _ _ _ _ w] split: option.splits)
qed

lemma channel_send_exact:
  "channel_send w ch p = (w', r) \<Longrightarrow>
     destinationChannels w' = destinationChannels w \<and> w_replies w' = w_replies w
     \<and> w_calls w' = Suc (w_calls w)
     \<and> (r = None \<longleftrightarrow> w_replies w (w_calls w) = Throws)
     \<and> w_trace w' = w_trace w @ (if r = None then [] else [ChannelSend (ch_id ch) p])"
  by (cases p)
     (auto simp: channel_send_def platform_call_def emit_def Let_def split: reply.splits)

lemma summary_of_expected:
  "e \<in> set (expected_sends w message g) \<Longrightarrow>
     summary_of (m_channel message) message e \<and> is_embed_send e"
proof (induction g)
  case Nil
  then show ?case by simp
next
  case (Cons x g)
  obtain c us where x: "x = (c, us)" by (cases x)
  from Cons show ?case
    unfolding x
    by (auto simp: summary_of_def embed_payload_def split: option.splits)
qed

lemma route_exact:
  "route w m g routed = (w', r) \<Longrightarrow>
     w_replies w' = w_replies w \<and> destinationChannels w' = destinationChannels w \<and>
     (case r of
        Resolved routed' \<Rightarrow>
          (\<forall>i<length (expected_sends w m g). w_replies w (w_calls w + i) \<noteq> Throws)
          \<and> w_calls w' = w_calls w + length (expected_sends w m g)
          \<and> w_trace w' = w_trace w @ expected_sends w m g
          \<and> length routed' = length routed + length (expected_sends w m g)
      | Rejected \<Rightarrow>
          (\<exists>k<length (expected_sends w m g).
              (\<forall>i<k. w_replies w (w_calls w + i) \<noteq> Throws)
              \<and> w_replies w (w_calls w + k) = Throws
              \<and> w_trace w' = w_trace w @ take k (expected_sends w m g)))"
proof (induction g arbitrary: w routed)
  case Nil
  then show ?case by auto
next
  case (Cons x g)
  obtain c us where x: "x = (c, us)" by (cases x)
  show ?case
  proof (cases "destinationChannels w c")
    case None
    with Cons.prems x have "route w m g routed = (w', r)" by simp
    moreover have "expected_sends w m (x # g) = expected_sends w m g"
      unfolding x using None by simp
    ultimately show ?thesis using Cons.IH[of w routed] by (cases r) simp_all
  next
    case (Some d)
    let ?p = "embed_payload (buildLinkEmbed w c us (m_author m) (Some (m_channel m))
                (Some (m_createdAt m)))"
    let ?E = "ChannelSend (ch_id d) (Payload None
               [buildLinkEmbed w c us (m_author m) (Some (m_channel m)) (Some (m_createdAt m))] [])"
    have es: "expected_sends w m (x # g) = ?E # expected_sends w m g"
      unfolding x using Some by simp
    obtain w1 s where s: "channel_send w d ?p = (w1, s)" by (cases "channel_send w d ?p")
    from channel_send_exact[OF s] have f1: "destinationChannels w1 = destinationChannels w"
      "w_replies w1 = w_replies w" "w_calls w1 = Suc (w_calls w)"
      "s = None \<longleftrightarrow> w_replies w (w_calls w) = Throws"
      "w_trace w1 = w_trace w @ (if s = None then [] else [?E])"
      by (simp_all add: embed_payload_def)
    have es1: "expected_sends w1 m g = expected_sends w m g"
      by (rule expected_sends_cong[OF f1(1)])
    show ?thesis
    proof (cases s)
      case None
      with Cons.prems x Some s have "w' = w1" "r = Rejected" by simp_all
      moreover from None f1 have "w_replies w (w_calls w + 0) = Throws" "w_trace w1 = w_trace w"
        by simp_all
      ultimately show ?thesis unfolding es using f1(1,2) by (auto intro!: exI[of _ 0])
    next
      case S: (Some sent)
      with Cons.prems x Some s have rec: "route w1 m g
          (routed @ [(c, ch_id d, c_icon (CATEGORIES c))]) = (w', r)" by simp
      from S f1 have ok0: "w_replies w (w_calls w) \<noteq> Throws" and t1: "w_trace w1 = w_trace w @ [?E]"
        by simp_all
      note ih = Cons.IH[OF rec, unfolded es1 f1(1,2,3)]
      show ?thesis
      proof (cases r)
        case Rejected
        with ih obtain k where k: "k < length (expected_sends w m g)"
          "\<forall>i<k. w_replies w (Suc (w_calls w) + i) \<noteq> Throws"
          "w_replies w (Suc (w_calls w) + k) = Throws"
          "w_trace w' = w_trace w1 @ take k (expected_sends w m g)" by auto
        have "\<forall>i<Suc k. w_replies w (w_calls w + i) \<noteq> Throws"
        proof (intro allI impI)
          fix i assume "i < Suc k"
          then show "w_replies w (w_calls w + i) \<noteq> Throws"
            using ok0 k(2) by (cases i) auto
        qed
        moreover have "Suc k < length (expected_sends w m (x # g))" using k(1) es by simp
        moreover have "w_replies w (w_calls w + Suc k) = Throws" using k(3) by simp
        moreover have "w_trace w' = w_trace w @ take (Suc k) (expected_sends w m (x # g))"
          using k(4) t1 es by simp
        ultimately show ?thesis using Rejected ih by (auto intro!: exI[of _ "Suc k"])
      next
        case (Resolved routed')
        with ih have a: "\<forall>i<length (expected_sends w m g). w_replies w (Suc (w_calls w) + i) \<noteq> Throws"
          "w_calls w' = Suc (w_calls w) + length (expected_sends w m g)"
          "w_trace w' = w_trace w1 @ expected_sends w m g"
          "length routed' = length (routed @ [(c, ch_id d, c_icon (CATEGORIES c))])
              + length (expected_sends w m g)" by auto
        have "\<forall>i<length (expected_sends w m (x # g)). w_replies w (w_calls w + i) \<noteq> Throws"
        proof (intro allI impI)
          fix i assume "i < length (expected_sends w m (x # g))"
          then show "w_replies w (w_calls w + i) \<noteq> Throws"
            using ok0 a(1) es by (cases i) auto
        qed
        with a t1 es Resolved ih show ?thesis by auto
      qed
    qed
  qed
qed

lemma notify_moved_exact:
  "(w_replies w (w_calls w) = Throws \<longrightarrow> w_trace (notify_moved w m routed) = w_trace w)
   \<and> (w_replies w (w_calls w) \<noteq> Throws \<longrightarrow>
        (\<exists>rest. w_trace (notify_moved w m routed) = w_trace w @ MessageDelete m # rest
               \<and> (\<forall>e\<in>set rest. \<not> is_embed_send e)))"
  by (auto simp: notify_moved_def message_delete_def channel_send_def platform_call_def emit_def
        Let_def split: reply.splits)

lemma messageCreate_ordinary:
  assumes "\<not> u_bot (m_author message)" "ch_guild (m_channel message) \<noteq> None"
    "\<not> isThread (m_channel message)" "\<not> isDestinationChannel w (ch_id (m_channel message))"
    "\<not> includes_str (str ''-private'') (ch_name (m_channel message))"
    "toRoute = filter (\<lambda>(category, urls).
        getDestinationId w category \<noteq> ch_id (m_channel message))
        (group_urls (match_global URL_REGEX (m_content message)) [])"
  shows "messageCreate w message =
     (case route w message toRoute [] of
        (w1, Rejected) \<Rightarrow> (w1, Rejected)
      | (w1, Resolved routed) \<Rightarrow>
          if routed = [] then (w1, Resolved ())
          else (notify_moved w1 message routed, Resolved ()))"
proof (cases "match_global URL_REGEX (m_content message) = []")
  case True
  with assms(6) have "toRoute = []" by simp
  with True assms(1-5) show ?thesis by (auto simp: messageCreate_def)
next
  case False
  show ?thesis
  proof (cases "toRoute = []")
    case True
    with False assms show ?thesis by (auto simp: messageCreate_def Let_def)
  next
    case F: False
    with False assms show ?thesis by (auto simp: messageCreate_def Let_def)
  qed
qed

lemma messageCreate_relocation_exact:
  assumes ord: "\<not> u_bot (m_author message)" "ch_guild (m_channel message) \<noteq> None"
    "\<not> isThread (m_channel message)" "\<not> isDestinationChannel w (ch_id (m_channel message))"
    "\<not> includes_str (str ''-private'') (ch_name (m_channel message))"
    and tr: "toRoute = filter (\<lambda>(category, urls).
        getDestinationId w category \<noteq> ch_id (m_channel message))
        (group_urls (match_global URL_REGEX (m_content message)) [])"
    and sends: "sends = expected_sends w message toRoute"
  shows "(\<forall>k. k < length sends \<and> (\<forall>i<k. w_replies w (w_calls w + i) \<noteq> Throws)
             \<and> w_replies w (w_calls w + k) = Throws \<longrightarrow>
            snd (messageCreate w message) = Rejected
            \<and> w_trace (fst (messageCreate w message)) = w_trace w @ take k sends)
     \<and> ((\<forall>i<length sends. w_replies w (w_calls w + i) \<noteq> Throws) \<longrightarrow>
            snd (messageCreate w message) = Resolved ()
            \<and> (\<exists>rest. w_trace (fst (messageCreate w message)) = w_trace w @ sends @ rest
                  \<and> (\<forall>e\<in>set rest. \<not> is_embed_send e)
                  \<and> (sends = [] \<longrightarrow> rest = [])
                  \<and> (w_replies w (w_calls w + length sends) = Throws \<longrightarrow> rest = [])
                  \<and> (sends \<noteq> [] \<and> w_replies w (w_calls w + length sends) \<noteq> Throws \<longrightarrow>
                        (\<exists>rest'. rest = MessageDelete message # rest'))))
     \<and> (\<forall>e\<in>set sends. summary_of (m_channel message) message e \<and> is_embed_send e)"
proof -
  obtain w1 r where rt: "route w message toRoute [] = (w1, r)"
    by (cases "route w message toRoute []")
  note mc = messageCreate_ordinary[OF ord tr, unfolded rt]
  from route_exact[OF rt] have rep: "w_replies w1 = w_replies w"
    and res: "\<And>routed'. r = Resolved routed' \<Longrightarrow>
          (\<forall>i<length sends. w_replies w (w_calls w + i) \<noteq> Throws)
          \<and> w_calls w1 = w_calls w + length sends
          \<and> w_trace w1 = w_trace w @ sends
          \<and> length routed' = length sends"
    and rej: "r = Rejected \<Longrightarrow> \<exists>k<length sends.
              (\<forall>i<k. w_replies w (w_calls w + i) \<noteq> Throws)
              \<and> w_replies w (w_calls w + k) = Throws
              \<and> w_trace w1 = w_trace w @ take k sends"
    unfolding sends by auto
  have p1: "snd (messageCreate w message) = Rejected
            \<and> w_trace (fst (messageCreate w message)) = w_trace w @ take k sends"
    if k: "k < length sends" "\<forall>i<k. w_replies w (w_calls w + i) \<noteq> Throws"
      "w_replies w (w_calls w + k) = Throws" for k
  proof (cases r)
    case (Resolved routed')
    from res[OF this] k(1,3) show ?thesis by blast
  next
    case Rejected
    from rej[OF this] obtain k' where k': "k' < length sends"
      "\<forall>i<k'. w_replies w (w_calls w + i) \<noteq> Throws"
      "w_replies w (w_calls w + k') = Throws"
      "w_trace w1 = w_trace w @ take k' sends" by blast
    have "k' = k"
    proof (rule ccontr)
      assume "k' \<noteq> k"
      then consider "k' < k" | "k < k'" by linarith
      then show False
      proof cases
        case 1
        with k(2) k'(3) show False by blast
      next
        case 2
        with k'(2) k(3) show False by blast
      qed
    qed
    with k' Rejected mc show ?thesis by simp
  qed
  have p2: "snd (messageCreate w message) = Resolved ()
            \<and> (\<exists>rest. w_trace (fst (messageCreate w message)) = w_trace w @ sends @ rest
                  \<and> (\<forall>e\<in>set rest. \<not> is_embed_send e)
                  \<and> (sends = [] \<longrightarrow> rest = [])
                  \<and> (w_replies w (w_calls w + length sends) = Throws \<longrightarrow> rest = [])
                  \<and> (sends \<noteq> [] \<and> w_replies w (w_calls w + length sends) \<noteq> Throws \<longrightarrow>
                        (\<exists>rest'. rest = MessageDelete message # rest')))"
    if ok: "\<forall>i<length sends. w_replies w (w_calls w + i) \<noteq> Throws"
  proof (cases r)
    case Rejected
    from rej[OF this] ok show ?thesis by blast
  next
    case (Resolved routed')
    from res[OF this] have c1: "w_calls w1 = w_calls w + length sends"
      and t1: "w_trace w1 = w_trace w @ sends" and len: "length routed' = length sends"
      by simp_all
    show ?thesis
    proof (cases "sends = []")
      case True
      with len have "routed' = []" by simp
      with Resolved mc t1 True show ?thesis by simp
    next
      case False
      with len have ne: "routed' \<noteq> []" by auto
      with Resolved mc have m: "messageCreate w message
          = (notify_moved w1 message routed', Resolved ())" by simp
      note nm = notify_moved_exact[of w1 message routed', unfolded rep c1]
      show ?thesis
      proof (cases "w_replies w (w_calls w + length sends) = Throws")
        case True
        with nm have "w_trace (notify_moved w1 message routed') = w_trace w @ sends @ []"
          using t1 by simp
        with m True show ?thesis by (intro conjI exI[of _ "[]"]) simp_all
      next
        case F2: False
        with nm obtain rest' where r': "w_trace (notify_moved w1 message routed')
            = w_trace w1 @ MessageDelete message # rest'" "\<forall>e\<in>set rest'. \<not> is_embed_send e"
          by blast
        then have "w_trace (notify_moved w1 message routed')
            = w_trace w @ sends @ (MessageDelete message # rest')" using t1 by simp
        with m r'(2) False F2 show ?thesis
          by (intro conjI exI[of _ "MessageDelete message # rest'"]) simp_all
      qed
    qed
  qed
  have p3: "\<forall>e\<in>set sends. summary_of (m_channel message) message e \<and> is_embed_send e"
    unfolding sends using summary_of_expected by blast
  from p1 p2 p3 show ?thesis by blast
qed

section \<open>The example runs\<close>

text \<open>The handler evaluated on the example states.\<close>

lemmas regex_eval = match_global.simps find_first.simps regex_test.simps matcher_Many
  URL_REGEX_def URL_EXCLUDED_def YOUTUBE_REGEX_def STEAM_REGEX_def Many1_def categorizeUrl_def
  canonicalize_def isWhiteSpace_def str_def

lemmas world_eval = guild_world_def flaky_world_def thread_world_def blank_world_def videos_def
  general_def games_def alice_def bot_user_def posted_def

lemmas handler_eval = isThread_def isDestinationChannel_def includes_str.simps
  channel_send_def thread_send_def message_delete_def platform_call_def emit_def
  embed_payload_def notify_moved_def strict_mode_def getOrCreateLatestThread_def
  existing_thread_def is_link_embed_def Let_def str_def

lemma link_post_urls: "match_global URL_REGEX (m_content link_post)
    = [str ''https://youtu.be/xyz'', str ''https://store.steampowered.com/app/9'']"
  by (simp add: link_post_def regex_eval)

lemma link_post_grouped:
  "group_urls [str ''https://youtu.be/xyz'', str ''https://store.steampowered.com/app/9''] []
    = [(youtube, [str ''https://youtu.be/xyz'']),
       (steam, [str ''https://store.steampowered.com/app/9''])]"
  by (simp add: regex_eval)

lemma link_post_run:
  "take 3 (w_trace (fst (messageCreate guild_world link_post))) =
    [ChannelSend (str ''11111111111'')
       (embed_payload (buildLinkEmbed guild_world youtube [str ''https://youtu.be/xyz''] alice
          (Some general) (Some 1769900000123))),
     ChannelSend (str ''33333333333'')
       (embed_payload (buildLinkEmbed guild_world steam [str ''https://store.steampowered.com/app/9'']
          alice (Some general) (Some 1769900000123))),
     MessageDelete link_post]"
  "snd (messageCreate guild_world link_post) = Resolved ()"
  unfolding messageCreate_def Let_def link_post_urls link_post_grouped
  by (simp_all add: world_eval link_post_def handler_eval buildLinkEmbed_def)

lemma link_post_flaky:
  "w_trace (fst (messageCreate flaky_world link_post)) =
    [ChannelSend (str ''11111111111'')
       (embed_payload (buildLinkEmbed guild_world youtube [str ''https://youtu.be/xyz''] alice
          (Some general) (Some 1769900000123)))]"
  "snd (messageCreate flaky_world link_post) = Rejected"
  unfolding messageCreate_def Let_def link_post_urls link_post_grouped
  by (simp_all add: world_eval link_post_def handler_eval buildLinkEmbed_def)

lemma link_post_description:
  "e_description (buildLinkEmbed guild_world youtube [str ''https://youtu.be/xyz''] alice
          (Some general) (Some 1769900000123))
   = Some (str ''https://youtu.be/xyz'' @ [10, 10] @ str ''**Posted by:** <@501>'' @ [10]
           @ str ''**From:** <#22222222222>'' @ [10]
           @ str ''**Original date:** <t:1769900000:f>'')"
  by (simp add: buildLinkEmbed_def alice_def general_def decimal_def digits.simps str_def)


lemma chat_run:
  "take 4 (w_trace (fst (messageCreate guild_world chat))) =
     [MessageDelete chat, ThreadUnarchive (str ''m1''),
      ThreadSend (str ''m1'') (repost_payload chat),
      ChannelSend (str ''11111111111'')
        (moved_notice chat \<lparr>t_id = str ''m1'', t_archived = False\<rparr>)]"
  unfolding messageCreate_def
  by (simp add: world_eval chat_def handler_eval moved_notice_def repost_payload_def
        mention_def display_name_def)

lemma chat_run_explicit:
  "take 4 (w_trace (fst (messageCreate guild_world chat))) =
     [MessageDelete chat, ThreadUnarchive (str ''m1''),
      ThreadSend (str ''m1'')
        (Payload (Some (str ''**alice** said:'' @ [10] @ str ''> nice one'')) []
           [\<lparr>att_url = str ''https://cdn.example/cat.png'', att_name = str ''cat.png''\<rparr>]),
      ChannelSend (str ''11111111111'')
        (Payload (Some ([55357, 56492, 32]
            @ str ''<@501> Your message was moved to the discussion thread: <#m1>''
            @ str ''. Please use threads to discuss links!'')) [] [])]"
  using chat_run
  by (simp add: repost_payload_def moved_notice_def mention_def display_name_def chat_def
        alice_def str_def)

lemma mixed_post_urls: "match_global URL_REGEX (m_content mixed_post)
    = [str ''https://youtu.be/xyz'', str ''https://example.org/page'']"
  by (simp add: mixed_post_def regex_eval)

lemma mixed_post_grouped:
  "group_urls [str ''https://youtu.be/xyz'', str ''https://example.org/page''] []
    = [(youtube, [str ''https://youtu.be/xyz'']), (other, [str ''https://example.org/page''])]"
  by (simp add: regex_eval)

lemma mixed_post_run:
  "filter is_embed_send (w_trace (fst (messageCreate thread_world mixed_post))) =
     [ChannelSend (str ''11111111111'')
        (Payload None [buildLinkEmbed thread_world youtube [str ''https://youtu.be/xyz''] alice
           (Some general) (Some 1769900000999)] [])]"
  "take 2 (w_trace (fst (messageCreate thread_world mixed_post))) =
     [ChannelSend (str ''11111111111'')
        (Payload None [buildLinkEmbed thread_world youtube [str ''https://youtu.be/xyz''] alice
           (Some general) (Some 1769900000999)] []),
      MessageDelete mixed_post]"
  unfolding messageCreate_def Let_def mixed_post_urls mixed_post_grouped
  by (simp_all add: world_eval mixed_post_def handler_eval buildLinkEmbed_def)

lemma link_post_expected:
  "expected_sends flaky_world link_post
     (filter (\<lambda>(category, urls). getDestinationId flaky_world category \<noteq> ch_id (m_channel link_post))
        (group_urls (match_global URL_REGEX (m_content link_post)) [])) =
   [ChannelSend (str ''11111111111'')
      (Payload None [buildLinkEmbed flaky_world youtube [str ''https://youtu.be/xyz''] alice
         (Some general) (Some 1769900000123)] []),
    ChannelSend (str ''33333333333'')
      (Payload None [buildLinkEmbed flaky_world steam [str ''https://store.steampowered.com/app/9'']
         alice (Some general) (Some 1769900000123)] [])]"
  unfolding link_post_urls link_post_grouped
  by (simp add: world_eval link_post_def str_def)

lemma link_post_ordinary:
  "\<not> u_bot (m_author link_post)" "ch_guild (m_channel link_post) \<noteq> None"
  "\<not> isThread (m_channel link_post)"
  "\<not> isDestinationChannel flaky_world (ch_id (m_channel link_post))"
  "\<not> includes_str (str ''-private'') (ch_name (m_channel link_post))"
  by (simp_all add: world_eval link_post_def isThread_def isDestinationChannel_def
        includes_str.simps str_def)

section \<open>The effects of the backfill\<close>

lemma relocation_mono:
  "set a \<subseteq> set b \<Longrightarrow> relocation ch a e \<Longrightarrow> relocation ch b e"
  unfolding relocation_def by blast

lemma backfill_route_extends:
  "backfill_route w ch msg g st = (w', r) \<Longrightarrow> extends (summary_of ch msg) w w'"
proof (induction g arbitrary: w st)
  case Nil
  then show ?case by simp
next
  case (Cons x rest)
  obtain category urls where x: "x = (category, urls)" by (cases x)
  obtain movedInChannel movedThisMsg where st: "st = (movedInChannel, movedThisMsg)" by (cases st)
  show ?case
  proof (cases "destinationChannels w category")
    case None
    with Cons x st show ?thesis by simp
  next
    case (Some destChannel)
    show ?thesis
    proof (cases "ch_id destChannel = ch_id ch")
      case True
      with Cons x st Some show ?thesis by simp
    next
      case False
      let ?p = "embed_payload (buildLinkEmbed w category urls (m_author msg) (Some ch)
                  (Some (m_createdAt msg)))"
      obtain w1 s where s: "channel_send w destChannel ?p = (w1, s)"
        by (cases "channel_send w destChannel ?p")
      have "summary_of ch msg (ChannelSend (ch_id destChannel) ?p)"
        unfolding summary_of_def by blast
      with channel_send_extends[where P="summary_of ch msg", OF s]
      have e1: "extends (summary_of ch msg) w w1" by blast
      show ?thesis
      proof (cases s)
        case None
        with Cons.prems x st Some False s e1 show ?thesis by simp
      next
        case S: (Some sent)
        with Cons.prems x st Some False s
        have "backfill_route w1 ch msg rest (Suc movedInChannel, True) = (w', r)" by simp
        from Cons.IH[OF this] e1 show ?thesis by (blast intro: extends_trans)
      qed
    qed
  qed
qed

lemma backfill_page_extends:
  "backfill_page w ch msgs moved = (w', r) \<Longrightarrow>
     extends (relocation ch (takeWhile fresh msgs)) w w'"
proof (induction msgs arbitrary: w moved)
  case Nil
  then show ?case by simp
next
  case (Cons msg msgs)
  show ?case
  proof (cases "fresh msg")
    case False
    with Cons.prems show ?thesis by (simp add: fresh_def)
  next
    case True
    then have nf: "\<not> m_createdAt msg < BACKFILL_AFTER" by (simp add: fresh_def)
    from True have tw: "takeWhile fresh (msg # msgs) = msg # takeWhile fresh msgs" by simp
    have up: "extends (relocation ch (takeWhile fresh msgs)) a b \<Longrightarrow>
              extends (relocation ch (takeWhile fresh (msg # msgs))) a b" for a b
      unfolding tw by (erule extends_mono) (auto elim: relocation_mono[rotated])
    let ?urls = "match_global URL_REGEX (m_content msg)"
    show ?thesis
    proof (cases "u_bot (m_author msg) \<or> ?urls = []")
      case skip: True
      with nf Cons.prems have "backfill_page w ch msgs moved = (w', r)"
        by (cases "u_bot (m_author msg)") (simp_all add: Let_def)
      from up[OF Cons.IH[OF this]] show ?thesis .
    next
      case go: False
      obtain w1 r1 where rt: "backfill_route w ch msg (group_urls ?urls []) (moved, False) = (w1, r1)"
        by (cases "backfill_route w ch msg (group_urls ?urls []) (moved, False)")
      have rel: "relocation ch (takeWhile fresh (msg # msgs)) e" if "summary_of ch msg e" for e
        unfolding tw relocation_def using that go by auto
      from backfill_route_extends[OF rt]
      have e1: "extends (relocation ch (takeWhile fresh (msg # msgs))) w w1"
        by (rule extends_mono) (rule rel)
      show ?thesis
      proof (cases r1)
        case Rejected
        with nf go rt Cons.prems e1 show ?thesis by (auto simp: Let_def)
      next
        case (Resolved st)
        obtain moved1 movedThisMsg where st: "st = (moved1, movedThisMsg)" by (cases st)
        let ?w2 = "if movedThisMsg then fst (message_delete w1 msg) else w1"
        have "extends (relocation ch (takeWhile fresh (msg # msgs))) w1 ?w2"
        proof (cases movedThisMsg)
          case False
          then show ?thesis by simp
        next
          case T: True
          have "relocation ch (takeWhile fresh (msg # msgs)) (MessageDelete msg)"
            unfolding tw relocation_def using go by auto
          with message_delete_extends[where P="relocation ch (takeWhile fresh (msg # msgs))",
              of w1 msg "fst (message_delete w1 msg)" "snd (message_delete w1 msg)"]
          show ?thesis using T by simp
        qed
        with e1 have e2: "extends (relocation ch (takeWhile fresh (msg # msgs))) w ?w2"
          by (rule extends_trans)
        from nf go rt Resolved st Cons.prems
        have "backfill_page ?w2 ch msgs moved1 = (w', r)"
          by (auto simp: Let_def)
        from e2 up[OF Cons.IH[OF this]] show ?thesis by (rule extends_trans)
      qed
    qed
  qed
qed

lemma backfill_page_no_cutoff:
  "backfill_page w ch msgs moved = (w', Resolved (moved', False)) \<Longrightarrow> \<forall>x\<in>set msgs. fresh x"
proof (induction msgs arbitrary: w moved)
  case Nil
  then show ?case by simp
next
  case (Cons msg msgs)
  from Cons.prems have f: "fresh msg" by (auto simp: fresh_def split: if_splits)
  from Cons.prems f have "\<exists>w2 moved2. backfill_page w2 ch msgs moved2 = (w', Resolved (moved', False))"
    by (auto simp: fresh_def Let_def split: if_splits prod.splits promise.splits)
  with Cons.IH f show ?case by auto
qed

lemma takeWhile_take_subset: "set (takeWhile P (take n xs)) \<subseteq> set (takeWhile P xs)"
proof (induction xs arbitrary: n)
  case Nil
  then show ?case by simp
next
  case (Cons x xs)
  then show ?case by (cases n) auto
qed

lemma takeWhile_drop_subset:
  "\<forall>x\<in>set (take n xs). P x \<Longrightarrow> set (takeWhile P (drop n xs)) \<subseteq> set (takeWhile P xs)"
proof (induction xs arbitrary: n)
  case Nil
  then show ?case by simp
next
  case (Cons x xs)
  then show ?case by (cases n) auto
qed

lemma backfill_channel_extends:
  "backfill_channel w ch older moved = (w', r) \<Longrightarrow>
     extends (relocation ch (takeWhile fresh older)) w w'"
proof (induction w ch older moved rule: backfill_channel.induct)
  case (1 w ch older moved)
  let ?R = "relocation ch (takeWhile fresh older)"
  obtain rep w1 where pc: "platform_call w = (rep, w1)" by (cases "platform_call w")
  then have e0: "extends ?R w w1" by (auto simp: platform_call_def extends_def)
  show ?case
  proof (cases rep)
    case Throws
    with "1.prems" pc e0 show ?thesis by (simp add: backfill_channel.simps[of w])
  next
    case (Returns x)
    show ?thesis
    proof (cases "take 100 older = []")
      case True
      with "1.prems" pc Returns e0 show ?thesis by (simp add: backfill_channel.simps[of w])
    next
      case False
      obtain w2 r2 where pg: "backfill_page w1 ch (take 100 older) moved = (w2, r2)"
        by (cases "backfill_page w1 ch (take 100 older) moved")
      from backfill_page_extends[OF pg] have "extends ?R w1 w2"
        by (rule extends_mono) (erule relocation_mono[OF takeWhile_take_subset])
      with e0 have e2: "extends ?R w w2" by (rule extends_trans)
      show ?thesis
      proof (cases r2)
        case Rejected
        with "1.prems" pc Returns False pg e2 show ?thesis
          by (simp add: backfill_channel.simps[of w])
      next
        case (Resolved st)
        obtain moved2 reachedCutoff where st: "st = (moved2, reachedCutoff)" by (cases st)
        have sl: "?R (Sleep 1000)" by (simp add: relocation_def)
        from extends_emit[OF e2 sl] have e3: "extends ?R w (emit w2 (Sleep 1000))" .
        show ?thesis
        proof (cases reachedCutoff)
          case True
          with "1.prems" pc Returns False pg Resolved st e3 show ?thesis
            by (simp add: backfill_channel.simps[of w])
        next
          case F: False
          with "1.prems" pc Returns False pg Resolved st
          have rec: "backfill_channel (emit w2 (Sleep 1000)) ch (drop 100 older) moved2 = (w', r)"
            by (simp add: backfill_channel.simps[of w])
          from pg Resolved st F
          have all: "\<forall>x\<in>set (take 100 older). fresh x"
            using backfill_page_no_cutoff[of w1 ch "take 100 older" moved w2 moved2] by simp
          from "1.IH"[OF pc[symmetric] Returns False pg[symmetric] Resolved st[symmetric] F rec]
          have "extends (relocation ch (takeWhile fresh (drop 100 older))) (emit w2 (Sleep 1000)) w'" .
          then have "extends ?R (emit w2 (Sleep 1000)) w'"
            by (rule extends_mono) (erule relocation_mono[OF takeWhile_drop_subset[OF all]])
          with e3 show ?thesis by (rule extends_trans)
        qed
      qed
    qed
  qed
qed


lemma backfill_page_stop:
  "\<forall>x\<in>set pre. fresh x \<Longrightarrow> \<not> fresh m \<Longrightarrow>
     backfill_page w ch (pre @ m # post) moved = backfill_page w ch (pre @ [m]) moved"
proof (induction pre arbitrary: w moved)
  case Nil
  then show ?case by (simp add: fresh_def)
next
  case (Cons x pre)
  then have ih: "\<And>w moved. backfill_page w ch (pre @ m # post) moved
      = backfill_page w ch (pre @ [m]) moved" by simp
  show ?case
    by (auto simp: Let_def ih split: prod.splits promise.splits)
qed

lemma backfill_page_stop_flag:
  "\<forall>x\<in>set pre. fresh x \<Longrightarrow> \<not> fresh m \<Longrightarrow>
     backfill_page w ch (pre @ [m]) moved = (w', Resolved (moved', flag)) \<Longrightarrow> flag"
proof (induction pre arbitrary: w moved)
  case Nil
  then show ?case by (simp add: fresh_def)
next
  case (Cons x pre)
  from Cons.prems have "\<exists>w2 moved2. backfill_page w2 ch (pre @ [m]) moved2
      = (w', Resolved (moved', flag))"
    by (auto simp: fresh_def Let_def split: if_splits prod.splits promise.splits)
  with Cons.IH Cons.prems(1,2) show ?case by auto
qed

lemma backfill_channel_stop:
  "\<forall>x\<in>set pre. fresh x \<Longrightarrow> \<not> fresh m \<Longrightarrow>
     backfill_channel w ch (pre @ m # post) moved = backfill_channel w ch (pre @ [m]) moved"
proof (induction "length pre" arbitrary: pre w moved rule: less_induct)
  case less
  obtain rep w1 where pc: "platform_call w = (rep, w1)" by (cases "platform_call w")
  show ?case
  proof (cases rep)
    case Throws
    with pc show ?thesis
      by (simp add: backfill_channel.simps[of w ch "pre @ m # post"]
            backfill_channel.simps[of w ch "pre @ [m]"])
  next
    case (Returns x)
    show ?thesis
    proof (cases "length pre < 100")
      case True
      then have t1: "take 100 (pre @ m # post) = pre @ m # take (99 - length pre) post"
        and t2: "take 100 (pre @ [m]) = pre @ [m]"
        by (simp_all add: take_Cons')
      have pg: "backfill_page w1 ch (pre @ m # take (99 - length pre) post) moved
          = backfill_page w1 ch (pre @ [m]) moved"
        by (rule backfill_page_stop[OF less.prems])
      obtain w2 r2 where r2: "backfill_page w1 ch (pre @ [m]) moved = (w2, r2)"
        by (cases "backfill_page w1 ch (pre @ [m]) moved")
      show ?thesis
      proof (cases r2)
        case Rejected
        with pc Returns t1 t2 pg r2 show ?thesis
          by (simp add: backfill_channel.simps[of w ch "pre @ m # post"]
                backfill_channel.simps[of w ch "pre @ [m]"])
      next
        case (Resolved st)
        obtain moved2 flag where st: "st = (moved2, flag)" by (cases st)
        from backfill_page_stop_flag[OF less.prems r2[unfolded Resolved st]] have flag .
        with pc Returns t1 t2 pg r2 Resolved st show ?thesis
          by (simp add: backfill_channel.simps[of w ch "pre @ m # post"]
                backfill_channel.simps[of w ch "pre @ [m]"])
      qed
    next
      case False
      then have t: "take 100 (pre @ m # post) = take 100 pre" "take 100 (pre @ [m]) = take 100 pre"
        and d: "drop 100 (pre @ m # post) = drop 100 pre @ m # post"
          "drop 100 (pre @ [m]) = drop 100 pre @ [m]"
        by simp_all
      from False have "length (drop 100 pre) < length pre" by simp
      moreover from less.prems(1) have "\<forall>x\<in>set (drop 100 pre). fresh x"
        by (auto dest: in_set_dropD)
      ultimately have ih: "\<And>w moved. backfill_channel w ch (drop 100 pre @ m # post) moved
          = backfill_channel w ch (drop 100 pre @ [m]) moved"
        using less.hyps less.prems(2) by blast
      show ?thesis
        unfolding backfill_channel.simps[of w ch "pre @ m # post"]
          backfill_channel.simps[of w ch "pre @ [m]"] t d pc
        by (simp add: ih split: reply.splits prod.splits promise.splits)
    qed
  qed
qed

lemma relocation_guild: "relocation ch (takeWhile fresh older) e \<Longrightarrow> guild_relocation e"
  unfolding relocation_def guild_relocation_def by (auto dest: set_takeWhileD)

lemma backfill_channels_extends:
  "backfill_channels w chans totalMoved = (w', r) \<Longrightarrow> extends guild_relocation w w'"
proof (induction chans arbitrary: w totalMoved)
  case Nil
  then show ?case by simp
next
  case (Cons ch rest)
  show ?case
  proof (cases "includes_str (str ''-private'') (ch_name ch)")
    case True
    with Cons show ?thesis by simp
  next
    case False
    obtain w1 r1 where sc: "backfill_channel w ch (w_history w (ch_id ch)) 0 = (w1, r1)"
      by (cases "backfill_channel w ch (w_history w (ch_id ch)) 0")
    from backfill_channel_extends[OF sc] have e1: "extends guild_relocation w w1"
      by (rule extends_mono) (rule relocation_guild)
    show ?thesis
    proof (cases r1)
      case Rejected
      with Cons.prems False sc e1 show ?thesis by simp
    next
      case (Resolved movedInChannel)
      with Cons.prems False sc
      have "backfill_channels w1 rest
              (if movedInChannel > 0 then totalMoved + movedInChannel else totalMoved) = (w', r)"
        by simp
      from e1 Cons.IH[OF this] show ?thesis by (rule extends_trans)
    qed
  qed
qed

lemma extends_set:
  "extends P w w' \<Longrightarrow> \<forall>e\<in>set (w_trace w'). e \<in> set (w_trace w) \<or> P e"
  unfolding extends_def by auto

lemma summary_timestamp:
  "summary_of ch m (ChannelSend dest (embed_payload emb)) \<Longrightarrow> e_timestamp emb = m_createdAt m"
  by (auto simp: summary_of_def embed_payload_def buildLinkEmbed_def Let_def)

lemma relocation_timestamp:
  assumes "relocation ch (takeWhile fresh older) (ChannelSend dest (embed_payload emb))"
  shows "BACKFILL_AFTER \<le> e_timestamp emb"
proof -
  from assms obtain m where m: "m \<in> set (takeWhile fresh older)"
    "summary_of ch m (ChannelSend dest (embed_payload emb))"
    unfolding relocation_def by auto
  from m(1) have "fresh m" by (auto dest: set_takeWhileD)
  with summary_timestamp[OF m(2)] show ?thesis by (simp add: fresh_def)
qed

text \<open>The backfill evaluated on the example history.\<close>

lemmas history_eval = history_world_def guild_world_def thread_world_def blank_world_def
  videos_def general_def games_def alice_def other_bot_def bot_user_def
  h1_def h2_def h3_def h4_def

lemma h1_urls: "match_global URL_REGEX (m_content h1) = [str ''https://youtu.be/one'']"
  by (simp add: h1_def regex_eval)

lemma h1_grouped: "group_urls [str ''https://youtu.be/one''] []
    = [(youtube, [str ''https://youtu.be/one''])]"
  by (simp add: regex_eval)

lemma history_fresh: "fresh h1" "fresh h2" "\<not> fresh h3" "fresh h4"
  by (simp_all add: fresh_def BACKFILL_AFTER_def h1_def h2_def h3_def h4_def)

lemma history_run:
  "w_trace (fst (backfill_channel history_world general [h1, h2, h3, h4] 0)) =
     [ChannelSend (str ''11111111111'')
        (embed_payload (buildLinkEmbed history_world youtube [str ''https://youtu.be/one''] alice
           (Some general) (Some 1768000000000))),
      MessageDelete h1, Sleep 1000]"
  "snd (backfill_channel history_world general [h1, h2, h3, h4] 0) = Resolved 1"
  unfolding backfill_channel.simps[of history_world general "[h1, h2, h3, h4]" 0]
  by (simp_all add: platform_call_def channel_send_def message_delete_def emit_def
        embed_payload_def buildLinkEmbed_def Let_def history_eval BACKFILL_AFTER_def regex_eval)

lemma history_guild_run:
  "w_trace (fst (backfillGuild history_world (str ''g1''))) =
     [ChannelSend (str ''11111111111'')
        (embed_payload (buildLinkEmbed history_world youtube [str ''https://youtu.be/one''] alice
           (Some general) (Some 1768000000000))),
      MessageDelete h1, Sleep 1000]"
proof -
  have f: "filter (\<lambda>ch. ch_type ch = GuildText \<and> \<not> isDestinationChannel history_world (ch_id ch)
                     \<and> w_permitted history_world (ch_id ch))
               (w_channels history_world (str ''g1'')) = [general]"
    by (simp add: isDestinationChannel_def history_world_def guild_world_def thread_world_def
          blank_world_def videos_def general_def games_def str_def)
  have p: "\<not> includes_str (str ''-private'') (ch_name general)"
    by (simp add: includes_str.simps general_def str_def)
  have h: "w_history history_world (ch_id general) = [h1, h2, h3, h4]"
    by (simp add: history_world_def general_def str_def)
  obtain w1 where w1: "backfill_channel history_world general [h1, h2, h3, h4] 0 = (w1, Resolved 1)"
    using history_run(2) by (metis prod.collapse)
  with history_run(1) have "w_trace w1 = [ChannelSend (str ''11111111111'')
        (embed_payload (buildLinkEmbed history_world youtube [str ''https://youtu.be/one''] alice
           (Some general) (Some 1768000000000))),
      MessageDelete h1, Sleep 1000]" by simp
  then show ?thesis
    unfolding backfillGuild_def f by (simp add: p h w1)
qed

section \<open>The classifier and the extraction of links\<close>

text \<open>
  Claim C4. \<open>categorizeUrl\<close> is a total function of the URL string that tries the YouTube
  pattern first, then the Steam pattern, and falls back to the default category: a URL is
  classified \<open>youtube\<close> exactly when it contains, in any mixture of upper and lower case,
  \<open>http://\<close> or \<open>https://\<close>, then optionally \<open>www.\<close>, then one of the three YouTube hosts;
  it is classified \<open>steam\<close> exactly when it contains no such text but contains the scheme
  followed by the Steam store host; and \<open>other\<close> exactly when it contains neither. A URL
  that matches both patterns is therefore \<open>youtube\<close>.
\<close>

theorem categorizeUrl_classification:
  "(categorizeUrl url = youtube \<longleftrightarrow> contains_text youtube_text url) \<and>
   (categorizeUrl url = steam \<longleftrightarrow>
      \<not> contains_text youtube_text url \<and> contains_text steam_text url) \<and>
   (categorizeUrl url = other \<longleftrightarrow>
      \<not> contains_text youtube_text url \<and> \<not> contains_text steam_text url)"
  unfolding categorizeUrl_def regex_test_YOUTUBE regex_test_STEAM by simp

theorem categorizeUrl_classification_witness:
  "categorizeUrl (str ''HTTP://WWW.YouTube.com/w?u=https://store.steampowered.com/app/1'') = youtube
   \<and> contains_text youtube_text
        (str ''HTTP://WWW.YouTube.com/w?u=https://store.steampowered.com/app/1'')
   \<and> categorizeUrl (str ''http://Store.SteamPowered.com/app/1'') = steam
   \<and> \<not> contains_text youtube_text (str ''http://Store.SteamPowered.com/app/1'')
   \<and> categorizeUrl (str ''https://example.org/youtube.com'') = other
   \<and> \<not> contains_text steam_text (str ''https://example.org/youtube.com'')"
proof -
  have a: "categorizeUrl (str ''HTTP://WWW.YouTube.com/w?u=https://store.steampowered.com/app/1'')
           = youtube"
    by (simp add: categorizeUrl_def regex_test.simps matcher_Many YOUTUBE_REGEX_def str_def
          canonicalize_def isWhiteSpace_def)
  have b: "categorizeUrl (str ''http://Store.SteamPowered.com/app/1'') = steam"
    by (simp add: categorizeUrl_def regex_test.simps matcher_Many YOUTUBE_REGEX_def
          STEAM_REGEX_def str_def canonicalize_def isWhiteSpace_def)
  have c: "categorizeUrl (str ''https://example.org/youtube.com'') = other"
    by (simp add: categorizeUrl_def regex_test.simps matcher_Many YOUTUBE_REGEX_def
          STEAM_REGEX_def str_def canonicalize_def isWhiteSpace_def)
  from a b c
    categorizeUrl_classification
      [of "str ''HTTP://WWW.YouTube.com/w?u=https://store.steampowered.com/app/1''"]
    categorizeUrl_classification [of "str ''http://Store.SteamPowered.com/app/1''"]
    categorizeUrl_classification [of "str ''https://example.org/youtube.com''"]
  show ?thesis by simp
qed

text \<open>
  Claim C9, as stated, fails: the class of \<open>URL_REGEX\<close> excludes white space and the
  characters \<open>< > { } | ^ [ ]\<close>, the double quote, the backslash and the backquote, but
  neither the full stop nor the closing parenthesis, so a link followed by one of them
  is extracted with it.
\<close>

theorem URL_REGEX_trailing_punctuation_counterexample:
  "match_global URL_REGEX (str ''(see https://example.com/a), or http://b.example.'')
     = [str ''https://example.com/a),'', str ''http://b.example.'']
   \<and> last (str ''https://example.com/a),'') = of_char CHR '',''
   \<and> last (str ''http://b.example.'') = of_char CHR ''.''"
  by (simp add: match_global.simps find_first.simps matcher_Many URL_REGEX_def URL_EXCLUDED_def
        Many1_def str_def canonicalize_def isWhiteSpace_def)

text \<open>
  Claim C9, amended: every extracted URL is non-empty and contains no white space and none
  of the characters \<open>< > " { } | \ ^ ` [ ]\<close> (codes 60, 62, 34, 123, 125, 124, 92, 94, 96,
  91, 93); in particular it does not end with one of them. Other punctuation, such as a
  full stop, a comma or a parenthesis, stays part of the URL.
\<close>

theorem URL_REGEX_excluded_characters:
  "u \<in> set (match_global URL_REGEX content) \<Longrightarrow>
     u \<noteq> [] \<and> (\<forall>c\<in>set u. urlChar c) \<and> urlChar (last u)"
  using extracted_url[of u content] by auto

theorem URL_REGEX_excluded_characters_witness:
  "str ''https://example.com/a'' \<in> set (match_global URL_REGEX (str ''<https://example.com/a> x''))
   \<and> urlChar (last (str ''https://example.com/a''))
   \<and> \<not> urlChar (of_char CHR ''>'') \<and> \<not> urlChar (of_char CHR '' '')"
proof -
  have m: "str ''https://example.com/a''
           \<in> set (match_global URL_REGEX (str ''<https://example.com/a> x''))"
    by (simp add: match_global.simps find_first.simps matcher_Many URL_REGEX_def URL_EXCLUDED_def
          Many1_def str_def canonicalize_def isWhiteSpace_def)
  from m URL_REGEX_excluded_characters[OF m] show ?thesis
    by (simp add: urlChar_def isWhiteSpace_def)
qed

section \<open>Destination resolution\<close>

text \<open>
  Claim C1, as stated, fails: the cache \<open>destinationChannels\<close> and the three id variables
  are indexed by the category alone. In the state \<open>two_guilds\<close>, resolving \<open>youtube\<close> for
  the first guild yields its channel \<open>videos\<close>; resolving it for the second guild then
  replaces the binding, and a repeated call for the first guild no longer yields
  \<open>videos\<close>.
\<close>

theorem ensureChannel_two_guilds_counterexample:
  "snd (ensureChannel two_guilds (str ''g1'') youtube) = Resolved videos
   \<and> destinationChannels
        (fst (ensureChannel (fst (ensureChannel two_guilds (str ''g1'') youtube))
                (str ''g2'') youtube))
        youtube \<noteq> Some videos
   \<and> snd (ensureChannel
        (fst (ensureChannel (fst (ensureChannel two_guilds (str ''g1'') youtube))
                (str ''g2'') youtube))
        (str ''g1'') youtube) \<noteq> Resolved videos"
  by (simp add: ensureChannel_def two_guilds_def blank_world_def videos_def cache_get_def
        enforceStrictPermissions_def platform_call_def emit_def bind_destination_def str_def
        Let_def)

text \<open>
  Claim C1, amended: within one guild (whose channel cache has one entry per id),
  \<open>ensureChannel\<close> is idempotent: when a call has resolved to a channel, calling it again
  for the same guild and category, with no call for another guild in between, resolves
  to the same channel, creates no channel and leaves the cache as it is. The cache is
  indexed by the category alone: after the call, the binding of the category is the
  channel just resolved, whichever guild it was resolved for.
\<close>

theorem ensureChannel_idempotent_within_guild:
  "distinct (map ch_id (w_channels w guild)) \<Longrightarrow>
   ensureChannel w guild category = (w1, Resolved ch) \<Longrightarrow>
     snd (ensureChannel w1 guild category) = Resolved ch
     \<and> destinationChannels w1 category = Some ch
     \<and> destinationChannels (fst (ensureChannel w1 guild category)) = destinationChannels w1
     \<and> w_channels (fst (ensureChannel w1 guild category)) = w_channels w1"
  by (rule ensureChannel_repeat)

theorem ensureChannel_idempotent_within_guild_witness:
  "distinct (map ch_id (w_channels two_guilds (str ''g2'')))
   \<and> snd (ensureChannel two_guilds (str ''g2'') youtube)
       = Resolved \<lparr>ch_id = str ''77777777770'', ch_name = str ''youtube'', ch_type = GuildText,
                    ch_guild = Some (str ''g2'')\<rparr>
   \<and> snd (ensureChannel (fst (ensureChannel two_guilds (str ''g2'') youtube)) (str ''g2'') youtube)
       = Resolved \<lparr>ch_id = str ''77777777770'', ch_name = str ''youtube'', ch_type = GuildText,
                    ch_guild = Some (str ''g2'')\<rparr>"
proof -
  have d: "distinct (map ch_id (w_channels two_guilds (str ''g2'')))"
    by (simp add: two_guilds_def blank_world_def str_def)
  have r2: "snd (ensureChannel two_guilds (str ''g2'') youtube)
      = Resolved \<lparr>ch_id = str ''77777777770'', ch_name = str ''youtube'', ch_type = GuildText,
                    ch_guild = Some (str ''g2'')\<rparr>"
    by (simp add: ensureChannel_def two_guilds_def blank_world_def videos_def cache_get_def
        enforceStrictPermissions_def platform_call_def emit_def bind_destination_def str_def
        Let_def)
  then have r: "ensureChannel two_guilds (str ''g2'') youtube
      = (fst (ensureChannel two_guilds (str ''g2'') youtube),
         Resolved \<lparr>ch_id = str ''77777777770'', ch_name = str ''youtube'', ch_type = GuildText,
                    ch_guild = Some (str ''g2'')\<rparr>)"
    by (metis prod.collapse)
  from ensureChannel_idempotent_within_guild[OF d r]
  have "snd (ensureChannel (fst (ensureChannel two_guilds (str ''g2'') youtube)) (str ''g2'') youtube)
       = Resolved \<lparr>ch_id = str ''77777777770'', ch_name = str ''youtube'', ch_type = GuildText,
                    ch_guild = Some (str ''g2'')\<rparr>"
    by (rule conjunct1)
  with d r2 show ?thesis by blast
qed

section \<open>The live router\<close>

text \<open>
  Claim C2, as stated, fails: a group whose category has no cached destination channel
  is skipped, and the original is deleted all the same once another group has been sent.
  In \<open>thread_world\<close> the message \<open>mixed_post\<close> has a YouTube group and a group of the
  default category, which has no destination: the only embed ever sent is that of the
  YouTube group, and the deletion of the original follows it.
\<close>

theorem unbound_destination_counterexample:
  "group_urls (match_global URL_REGEX (m_content mixed_post)) []
     = [(youtube, [str ''https://youtu.be/xyz'']), (other, [str ''https://example.org/page''])]
   \<and> destinationChannels thread_world other = None
   \<and> filter is_embed_send (w_trace (fst (messageCreate thread_world mixed_post))) =
       [ChannelSend (str ''11111111111'')
          (Payload None [buildLinkEmbed thread_world youtube [str ''https://youtu.be/xyz''] alice
             (Some general) (Some 1769900000999)] [])]
   \<and> take 2 (w_trace (fst (messageCreate thread_world mixed_post))) =
       [ChannelSend (str ''11111111111'')
          (Payload None [buildLinkEmbed thread_world youtube [str ''https://youtu.be/xyz''] alice
             (Some general) (Some 1769900000999)] []),
        MessageDelete mixed_post]"
proof -
  have "group_urls (match_global URL_REGEX (m_content mixed_post)) []
     = [(youtube, [str ''https://youtu.be/xyz'']), (other, [str ''https://example.org/page''])]"
    unfolding mixed_post_urls by (rule mixed_post_grouped)
  moreover have "destinationChannels thread_world other = None"
    by (simp add: thread_world_def blank_world_def)
  ultimately show ?thesis using mixed_post_run by simp
qed

text \<open>
  Claim C2, amended. Take a message of a user, in a guild, outside threads, in a channel
  that is neither a link channel nor private. The sends that are due are one link embed
  for every group to route whose category has a cached destination, in the order of the
  groups (\<open>expected_sends\<close>); a group without cached destination is skipped. The sends
  are the first requests of the handler, one request each.
  If the request of the send number \<open>k\<close> is the first to throw, the handler is rejected
  and its effects are exactly the \<open>k\<close> sends before it: the original is not deleted.
  If no send throws, the handler completes and its effects are all the sends due,
  followed by effects that contain no send of an embed: nothing when no send was due or
  when the deletion throws, and otherwise the deletion of the original first. So every
  send precedes the deletion, and the deletion happens only after all the sends due.
\<close>

theorem messageCreate_relocation_order:
  assumes "\<not> u_bot (m_author message)" "ch_guild (m_channel message) \<noteq> None"
    "\<not> isThread (m_channel message)" "\<not> isDestinationChannel w (ch_id (m_channel message))"
    "\<not> includes_str (str ''-private'') (ch_name (m_channel message))"
    and "toRoute = filter (\<lambda>(category, urls).
        getDestinationId w category \<noteq> ch_id (m_channel message))
        (group_urls (match_global URL_REGEX (m_content message)) [])"
    and "sends = expected_sends w message toRoute"
  shows "(\<forall>k. k < length sends \<and> (\<forall>i<k. w_replies w (w_calls w + i) \<noteq> Throws)
             \<and> w_replies w (w_calls w + k) = Throws \<longrightarrow>
            snd (messageCreate w message) = Rejected
            \<and> w_trace (fst (messageCreate w message)) = w_trace w @ take k sends)
     \<and> ((\<forall>i<length sends. w_replies w (w_calls w + i) \<noteq> Throws) \<longrightarrow>
            snd (messageCreate w message) = Resolved ()
            \<and> (\<exists>rest. w_trace (fst (messageCreate w message)) = w_trace w @ sends @ rest
                  \<and> (\<forall>e\<in>set rest. \<not> is_embed_send e)
                  \<and> (sends = [] \<longrightarrow> rest = [])
                  \<and> (w_replies w (w_calls w + length sends) = Throws \<longrightarrow> rest = [])
                  \<and> (sends \<noteq> [] \<and> w_replies w (w_calls w + length sends) \<noteq> Throws \<longrightarrow>
                        (\<exists>rest'. rest = MessageDelete message # rest'))))
     \<and> (\<forall>e\<in>set sends. summary_of (m_channel message) message e \<and> is_embed_send e)"
  using assms by (rule messageCreate_relocation_exact)

theorem messageCreate_relocation_order_witness:
  "expected_sends flaky_world link_post
     (filter (\<lambda>(category, urls). getDestinationId flaky_world category \<noteq> ch_id (m_channel link_post))
        (group_urls (match_global URL_REGEX (m_content link_post)) [])) =
     [ChannelSend (str ''11111111111'')
        (Payload None [buildLinkEmbed flaky_world youtube [str ''https://youtu.be/xyz''] alice
           (Some general) (Some 1769900000123)] []),
      ChannelSend (str ''33333333333'')
        (Payload None [buildLinkEmbed flaky_world steam [str ''https://store.steampowered.com/app/9'']
           alice (Some general) (Some 1769900000123)] [])]
   \<and> w_replies flaky_world (w_calls flaky_world + 0) \<noteq> Throws
   \<and> w_replies flaky_world (w_calls flaky_world + 1) = Throws
   \<and> snd (messageCreate flaky_world link_post) = Rejected
   \<and> w_trace (fst (messageCreate flaky_world link_post)) =
       [ChannelSend (str ''11111111111'')
          (Payload None [buildLinkEmbed flaky_world youtube [str ''https://youtu.be/xyz''] alice
             (Some general) (Some 1769900000123)] [])]"
proof -
  let ?sends = "expected_sends flaky_world link_post
     (filter (\<lambda>(category, urls). getDestinationId flaky_world category \<noteq> ch_id (m_channel link_post))
        (group_urls (match_global URL_REGEX (m_content link_post)) []))"
  have r: "w_replies flaky_world (w_calls flaky_world + 0) \<noteq> Throws"
    "w_replies flaky_world (w_calls flaky_world + 1) = Throws"
    by (simp_all add: flaky_world_def guild_world_def thread_world_def blank_world_def)
  have t0: "w_trace flaky_world = []"
    by (simp add: flaky_world_def guild_world_def thread_world_def blank_world_def)
  have k: "1 < length ?sends" "\<forall>i<1. w_replies flaky_world (w_calls flaky_world + i) \<noteq> Throws"
    using r(1) by (simp_all add: link_post_expected)
  from messageCreate_relocation_order[OF link_post_ordinary refl refl] k r(2)
  have "snd (messageCreate flaky_world link_post) = Rejected
        \<and> w_trace (fst (messageCreate flaky_world link_post)) = w_trace flaky_world @ take 1 ?sends"
    by blast
  then have "snd (messageCreate flaky_world link_post) = Rejected"
    "w_trace (fst (messageCreate flaky_world link_post)) =
       [ChannelSend (str ''11111111111'')
          (Payload None [buildLinkEmbed flaky_world youtube [str ''https://youtu.be/xyz''] alice
             (Some general) (Some 1769900000123)] [])]"
    by (simp_all add: t0 link_post_expected)
  with r link_post_expected show ?thesis by simp
qed

text \<open>
  Claim C3. For a message of a user (not a bot), in a guild, not inside a thread, posted
  in a channel whose id is one of the three destination ids, and provided no request to
  the platform throws: the original message is deleted first; looking for the thread
  sends nothing; when one of the fifty most recent messages of the channel is a link
  embed of the bot, the captured content is re-posted in its thread, as the text made of
  the display name of the original author in bold (the user name when there is no
  display name), \<open>said:\<close> and the quoted content (\<open>*(no text)*\<close> when it is empty), with
  the attachments of the original as files; then a notice that mentions the author and
  refers to the thread is sent to the channel, and the deletion of this very notice is
  scheduled after 10 seconds. Otherwise only a notice that mentions the author is sent,
  and its deletion is scheduled after 15 seconds.
\<close>

theorem strict_enforcement:
  assumes "\<not> u_bot (m_author message)" "ch_guild (m_channel message) \<noteq> None"
    "\<not> isThread (m_channel message)" "isDestinationChannel w (ch_id (m_channel message))"
    "calm w"
    "message_delete w message = (w1, deleted)"
    "getOrCreateLatestThread w1 (m_channel message) = (w2, r)"
  shows "deleted \<and> w_trace w1 = w_trace w @ [MessageDelete message]
     \<and> w_history w1 (ch_id (m_channel message))
         = filter (\<lambda>x. m_id x \<noteq> m_id message) (w_history w (ch_id (m_channel message)))
     \<and> extends (\<lambda>e. (\<exists>i. e = ThreadUnarchive i) \<or> (\<exists>i n. e = ThreadStart i n)) w1 w2
     \<and> (\<exists>tr. r = Resolved tr
          \<and> (tr = None \<longleftrightarrow>
               \<not> (\<exists>m\<in>set (take 50 (w_history w1 (ch_id (m_channel message)))). is_link_embed w m))
          \<and> (case tr of
               Some t \<Rightarrow>
                 (\<exists>notice. m_author notice = w_client_user w \<and> m_channel notice = m_channel message
                    \<and> m_content notice =
                        [55357, 56492, 32] @ (str ''<@'' @ u_id (m_author message) @ str ''>'')
                        @ str '' Your message was moved to the discussion thread: ''
                        @ str ''<#'' @ t_id t @ str ''>''
                        @ str ''. Please use threads to discuss links!''
                    \<and> w_trace (fst (messageCreate w message)) = w_trace w2 @
                        [ThreadSend (t_id t)
                           (Payload
                              (Some (str ''**''
                                 @ (if u_displayName (m_author message) \<noteq> []
                                    then u_displayName (m_author message)
                                    else u_username (m_author message))
                                 @ str ''** said:'' @ [10] @ str ''> ''
                                 @ (if m_content message \<noteq> [] then m_content message
                                    else str ''*(no text)*'')))
                              [] (m_attachments message)),
                         ChannelSend (ch_id (m_channel message))
                           (Payload (Some (m_content notice)) [] []),
                         DeleteLater 10000 notice])
             | None \<Rightarrow>
                 (\<exists>warning. m_author warning = w_client_user w
                    \<and> m_channel warning = m_channel message
                    \<and> m_content warning =
                        [55357, 56492, 32] @ (str ''<@'' @ u_id (m_author message) @ str ''>'')
                        @ str '' This channel is for links only! ''
                        @ str ''No links have been posted yet to create a thread on. ''
                        @ str ''Please wait for a link to be posted, then create a thread to discuss it.''
                    \<and> w_trace (fst (messageCreate w message)) = w_trace w2 @
                        [ChannelSend (ch_id (m_channel message))
                           (Payload (Some (m_content warning)) [] []),
                         DeleteLater 15000 warning])))"
proof -
  from assms(1-4) have e: "fst (messageCreate w message) = strict_mode w message"
    by (auto simp: messageCreate_def)
  show ?thesis unfolding e by (rule strict_mode_calm[OF assms(5-7)])
qed

theorem strict_enforcement_witness:
  "\<not> u_bot (m_author chat) \<and> ch_guild (m_channel chat) \<noteq> None \<and> \<not> isThread (m_channel chat)
   \<and> isDestinationChannel guild_world (ch_id (m_channel chat)) \<and> calm guild_world
   \<and> w_trace (fst (message_delete guild_world chat)) = [MessageDelete chat]
   \<and> take 4 (w_trace (fst (messageCreate guild_world chat))) =
       [MessageDelete chat, ThreadUnarchive (str ''m1''),
        ThreadSend (str ''m1'')
          (Payload (Some (str ''**alice** said:'' @ [10] @ str ''> nice one'')) []
             [\<lparr>att_url = str ''https://cdn.example/cat.png'', att_name = str ''cat.png''\<rparr>]),
        ChannelSend (str ''11111111111'')
          (Payload (Some ([55357, 56492, 32]
              @ str ''<@501> Your message was moved to the discussion thread: <#m1>''
              @ str ''. Please use threads to discuss links!'')) [] [])]"
proof -
  let ?w1 = "fst (message_delete guild_world chat)"
  have h: "\<not> u_bot (m_author chat)" "ch_guild (m_channel chat) \<noteq> None"
    "\<not> isThread (m_channel chat)" "isDestinationChannel guild_world (ch_id (m_channel chat))"
    by (simp_all add: chat_def alice_def videos_def isThread_def isDestinationChannel_def
          guild_world_def thread_world_def blank_world_def)
  have c: "calm guild_world"
    by (simp add: calm_def guild_world_def thread_world_def blank_world_def)
  have t0: "w_trace guild_world = []"
    by (simp add: guild_world_def thread_world_def blank_world_def)
  have d: "message_delete guild_world chat = (?w1, snd (message_delete guild_world chat))"
    by simp
  have g: "getOrCreateLatestThread ?w1 (m_channel chat)
      = (fst (getOrCreateLatestThread ?w1 (m_channel chat)),
         snd (getOrCreateLatestThread ?w1 (m_channel chat)))"
    by simp
  from strict_enforcement[OF h c d g] t0
  have "w_trace ?w1 = [MessageDelete chat]" by simp
  with h c chat_run_explicit show ?thesis by simp
qed




section \<open>The embed composer\<close>

text \<open>
  Claim C7, as stated, fails in its second part: the live handler passes
  \<open>message.createdAt\<close> to \<open>buildLinkEmbed\<close> just as the backfill does, so the embed sent
  for a live message carries the line with the original date.
\<close>

theorem live_embed_original_date_counterexample:
  "hd (w_trace (fst (messageCreate guild_world link_post))) =
     ChannelSend (str ''11111111111'')
       (embed_payload (buildLinkEmbed guild_world youtube [str ''https://youtu.be/xyz''] alice
          (Some general) (Some 1769900000123)))
   \<and> e_description (buildLinkEmbed guild_world youtube [str ''https://youtu.be/xyz''] alice
          (Some general) (Some 1769900000123))
     = Some (str ''https://youtu.be/xyz'' @ [10, 10] @ str ''**Posted by:** <@501>'' @ [10]
             @ str ''**From:** <#22222222222>'' @ [10]
             @ str ''**Original date:** <t:1769900000:f>'')"
proof -
  from link_post_run(1)
  have "hd (take 3 (w_trace (fst (messageCreate guild_world link_post)))) =
     ChannelSend (str ''11111111111'')
       (embed_payload (buildLinkEmbed guild_world youtube [str ''https://youtu.be/xyz''] alice
          (Some general) (Some 1769900000123)))"
    by simp
  moreover have "hd (take 3 (w_trace (fst (messageCreate guild_world link_post))))
      = hd (w_trace (fst (messageCreate guild_world link_post)))"
    by (rule hd_take) simp
  ultimately show ?thesis using link_post_description by simp
qed

text \<open>
  Claim C7, amended: the timestamp of the embed is the supplied timestamp when one is
  given and the current time otherwise. The description always exists: it is the links,
  one per line, the line of the author and, when a source channel is given, the line of
  the channel; when a timestamp is given, and only then, the line of the original date
  (the timestamp in seconds) follows. The live handler gives the creation time of the
  message: its effects are sends of one embed each, followed by effects that send no
  embed, and every embed sent has the creation time of the message as its timestamp and
  a description that ends with the line of this original date.
\<close>

theorem buildLinkEmbed_timestamp:
  "e_timestamp (buildLinkEmbed w category urls usr src (Some t)) = t
   \<and> e_timestamp (buildLinkEmbed w category urls usr src None) = w_now w
   \<and> e_description (buildLinkEmbed w category urls usr src None)
       = Some (join [10] urls @ [10, 10] @ str ''**Posted by:** <@'' @ u_id usr @ str ''>''
               @ (case src of Some ch \<Rightarrow> [10] @ str ''**From:** <#'' @ ch_id ch @ str ''>''
                  | None \<Rightarrow> []))
   \<and> e_description (buildLinkEmbed w category urls usr src (Some t))
       = Some ((join [10] urls @ [10, 10] @ str ''**Posted by:** <@'' @ u_id usr @ str ''>''
                @ (case src of Some ch \<Rightarrow> [10] @ str ''**From:** <#'' @ ch_id ch @ str ''>''
                   | None \<Rightarrow> []))
               @ [10] @ str ''**Original date:** <t:'' @ decimal (t div 1000) @ str '':f>'')
   \<and> (\<exists>sends rest.
         w_trace (fst (messageCreate w message)) = w_trace w @ sends @ rest
         \<and> (\<forall>e\<in>set rest. \<not> is_embed_send e)
         \<and> (\<forall>e\<in>set sends. \<exists>dest emb.
               e = ChannelSend dest (Payload None [emb] [])
               \<and> e_timestamp emb = m_createdAt message
               \<and> (\<exists>d. e_description emb
                        = Some (d @ [10] @ str ''**Original date:** <t:''
                                @ decimal (m_createdAt message div 1000) @ str '':f>''))))"
proof -
  have descr: "e_description (buildLinkEmbed w0 c us u s (Some t0))
       = Some ((join [10] us @ [10, 10] @ str ''**Posted by:** <@'' @ u_id u @ str ''>''
                @ (case s of Some ch \<Rightarrow> [10] @ str ''**From:** <#'' @ ch_id ch @ str ''>''
                   | None \<Rightarrow> []))
               @ [10] @ str ''**Original date:** <t:'' @ decimal (t0 div 1000) @ str '':f>'')"
    for w0 c us u s t0
    by (simp add: buildLinkEmbed_def Let_def)
  have dated: "\<exists>dest emb.
               e = ChannelSend dest (Payload None [emb] [])
               \<and> e_timestamp emb = m_createdAt message
               \<and> (\<exists>d. e_description emb
                        = Some (d @ [10] @ str ''**Original date:** <t:''
                                @ decimal (m_createdAt message div 1000) @ str '':f>''))"
    if "summary_of (m_channel message) message e" for e
  proof -
    from that obtain dest w0 c us where e: "e = ChannelSend dest (Payload None
        [buildLinkEmbed w0 c us (m_author message) (Some (m_channel message))
           (Some (m_createdAt message))] [])"
      unfolding summary_of_def embed_payload_def by blast
    let ?emb = "buildLinkEmbed w0 c us (m_author message) (Some (m_channel message))
           (Some (m_createdAt message))"
    have "e_timestamp ?emb = m_createdAt message" by (simp add: buildLinkEmbed_def Let_def)
    moreover from descr[of w0 c us "m_author message" "Some (m_channel message)"
        "m_createdAt message"]
    have "\<exists>d. e_description ?emb = Some (d @ [10] @ str ''**Original date:** <t:''
                                @ decimal (m_createdAt message div 1000) @ str '':f>'')"
      by blast
    ultimately show ?thesis using e by blast
  qed
  from messageCreate_shape[of w message] obtain sends rest where
    sh: "w_trace (fst (messageCreate w message)) = w_trace w @ sends @ rest"
    "\<forall>e\<in>set sends. summary_of (m_channel message) message e"
    "\<forall>e\<in>set rest. \<not> is_embed_send e" by blast
  from sh(2) dated have "\<forall>e\<in>set sends. \<exists>dest emb.
               e = ChannelSend dest (Payload None [emb] [])
               \<and> e_timestamp emb = m_createdAt message
               \<and> (\<exists>d. e_description emb
                        = Some (d @ [10] @ str ''**Original date:** <t:''
                                @ decimal (m_createdAt message div 1000) @ str '':f>''))"
    by blast
  with sh(1,3) have live: "\<exists>sends rest.
         w_trace (fst (messageCreate w message)) = w_trace w @ sends @ rest
         \<and> (\<forall>e\<in>set rest. \<not> is_embed_send e)
         \<and> (\<forall>e\<in>set sends. \<exists>dest emb.
               e = ChannelSend dest (Payload None [emb] [])
               \<and> e_timestamp emb = m_createdAt message
               \<and> (\<exists>d. e_description emb
                        = Some (d @ [10] @ str ''**Original date:** <t:''
                                @ decimal (m_createdAt message div 1000) @ str '':f>'')))"
    by blast
  have a: "e_timestamp (buildLinkEmbed w category urls usr src (Some t)) = t"
    "e_timestamp (buildLinkEmbed w category urls usr src None) = w_now w"
    "e_description (buildLinkEmbed w category urls usr src None)
       = Some (join [10] urls @ [10, 10] @ str ''**Posted by:** <@'' @ u_id usr @ str ''>''
               @ (case src of Some ch \<Rightarrow> [10] @ str ''**From:** <#'' @ ch_id ch @ str ''>''
                  | None \<Rightarrow> []))"
    by (simp_all add: buildLinkEmbed_def Let_def)
  from a descr[of w category urls usr src t] live show ?thesis by blast
qed

theorem buildLinkEmbed_timestamp_witness:
  "ChannelSend (str ''33333333333'')
     (embed_payload (buildLinkEmbed guild_world steam [str ''https://store.steampowered.com/app/9'']
        alice (Some general) (Some 1769900000123)))
     \<in> set (w_trace (fst (messageCreate guild_world link_post)))
   \<and> e_timestamp (buildLinkEmbed guild_world steam [str ''https://store.steampowered.com/app/9'']
        alice (Some general) (Some 1769900000123)) = 1769900000123
   \<and> e_description (buildLinkEmbed guild_world steam [str ''https://store.steampowered.com/app/9'']
        alice (Some general) (Some 1769900000123))
     = Some (str ''https://store.steampowered.com/app/9'' @ [10, 10]
             @ str ''**Posted by:** <@501>'' @ [10] @ str ''**From:** <#22222222222>'' @ [10]
             @ str ''**Original date:** <t:1769900000:f>'')"
proof -
  let ?E = "ChannelSend (str ''33333333333'')
     (embed_payload (buildLinkEmbed guild_world steam [str ''https://store.steampowered.com/app/9'']
        alice (Some general) (Some 1769900000123)))"
  have "?E \<in> set (take 3 (w_trace (fst (messageCreate guild_world link_post))))"
    unfolding link_post_run(1) by simp
  then have m: "?E \<in> set (w_trace (fst (messageCreate guild_world link_post)))"
    by (rule in_set_takeD)
  note c = buildLinkEmbed_timestamp[of guild_world steam
      "[str ''https://store.steampowered.com/app/9'']" alice "Some general" 1769900000123]
  from c have "e_timestamp (buildLinkEmbed guild_world steam
        [str ''https://store.steampowered.com/app/9''] alice (Some general)
        (Some 1769900000123)) = 1769900000123"
    by blast
  moreover from c have "e_description (buildLinkEmbed guild_world steam
        [str ''https://store.steampowered.com/app/9''] alice (Some general)
        (Some 1769900000123))
     = Some ((join [10] [str ''https://store.steampowered.com/app/9''] @ [10, 10]
                @ str ''**Posted by:** <@'' @ u_id alice @ str ''>''
                @ (case Some general of Some ch \<Rightarrow> [10] @ str ''**From:** <#'' @ ch_id ch @ str ''>''
                   | None \<Rightarrow> []))
               @ [10] @ str ''**Original date:** <t:'' @ decimal (1769900000123 div 1000)
               @ str '':f>'')"
    by blast
  ultimately show ?thesis using m
    by (simp add: alice_def general_def decimal_def digits.simps str_def)
qed

section \<open>The backfill scanner\<close>

text \<open>
  Claim C5. Every effect of the scan of a channel is the pause between two pages or the
  relocation of a message that stands before the first message older than the cutoff, in
  the order of iteration; hence every embed it sends carries a timestamp (the creation
  time of the original) not before the cutoff. And the scan ends at the first message
  older than the cutoff: what the history holds after that message has no influence on
  the scan.
\<close>

theorem backfill_cutoff:
  "(\<forall>e\<in>set (w_trace (fst (backfill_channel w ch older moved))).
        e \<in> set (w_trace w) \<or> relocation ch (takeWhile fresh older) e)
   \<and> (\<forall>dest emb.
        ChannelSend dest (embed_payload emb)
          \<in> set (w_trace (fst (backfill_channel w ch older moved))) \<longrightarrow>
        ChannelSend dest (embed_payload emb) \<in> set (w_trace w)
        \<or> BACKFILL_AFTER \<le> e_timestamp emb)
   \<and> ((\<forall>x\<in>set pre. fresh x) \<and> \<not> fresh m \<longrightarrow>
        backfill_channel w ch (pre @ m # post) moved = backfill_channel w ch (pre @ [m]) moved)"
proof -
  have "backfill_channel w ch older moved
      = (fst (backfill_channel w ch older moved), snd (backfill_channel w ch older moved))"
    by simp
  from extends_set[OF backfill_channel_extends[OF this]]
  have a: "\<forall>e\<in>set (w_trace (fst (backfill_channel w ch older moved))).
        e \<in> set (w_trace w) \<or> relocation ch (takeWhile fresh older) e" .
  then have b: "\<forall>dest emb.
        ChannelSend dest (embed_payload emb)
          \<in> set (w_trace (fst (backfill_channel w ch older moved))) \<longrightarrow>
        ChannelSend dest (embed_payload emb) \<in> set (w_trace w)
        \<or> BACKFILL_AFTER \<le> e_timestamp emb"
    using relocation_timestamp[of ch older] by blast
  from a b backfill_channel_stop[of pre m w ch post moved] show ?thesis by blast
qed

theorem backfill_cutoff_witness:
  "fresh h1 \<and> fresh h2 \<and> \<not> fresh h3
   \<and> backfill_channel history_world general ([h1, h2] @ h3 # [h4]) 0
       = backfill_channel history_world general ([h1, h2] @ [h3]) 0
   \<and> w_trace (fst (backfill_channel history_world general [h1, h2, h3, h4] 0)) =
       [ChannelSend (str ''11111111111'')
          (embed_payload (buildLinkEmbed history_world youtube [str ''https://youtu.be/one''] alice
             (Some general) (Some 1768000000000))),
        MessageDelete h1, Sleep 1000]
   \<and> BACKFILL_AFTER \<le> e_timestamp (buildLinkEmbed history_world youtube
          [str ''https://youtu.be/one''] alice (Some general) (Some 1768000000000))"
proof -
  let ?emb = "buildLinkEmbed history_world youtube [str ''https://youtu.be/one''] alice
             (Some general) (Some 1768000000000)"
  note c = backfill_cutoff[of history_world general "[h1, h2, h3, h4]" 0 "[h1, h2]" h3 "[h4]"]
  have t0: "w_trace history_world = []"
    by (simp add: history_world_def guild_world_def thread_world_def blank_world_def)
  have pre: "\<forall>x\<in>set [h1, h2]. fresh x" using history_fresh by simp
  from c pre history_fresh(3)
  have stop: "backfill_channel history_world general ([h1, h2] @ h3 # [h4]) 0
       = backfill_channel history_world general ([h1, h2] @ [h3]) 0" by blast
  have "ChannelSend (str ''11111111111'') (embed_payload ?emb)
      \<in> set (w_trace (fst (backfill_channel history_world general [h1, h2, h3, h4] 0)))"
    unfolding history_run(1) by simp
  with c t0 have "BACKFILL_AFTER \<le> e_timestamp ?emb" by auto
  with stop history_fresh history_run(1) show ?thesis by simp
qed

text \<open>
  Claim C10. A message written by a bot, any bot, is ignored: the live handler returns at
  once, with no effect and no request to the platform; the backfill skips it whatever its
  content; and every effect of the backfill of a guild is the pause between two pages or
  the relocation (the sending of its link embed, or its deletion) of a message that no
  bot wrote.
\<close>

theorem bots_are_ignored:
  "(u_bot (m_author message) \<longrightarrow> messageCreate w message = (w, Resolved ()))
   \<and> (u_bot (m_author msg) \<and> fresh msg \<longrightarrow>
        backfill_page w ch (msg # msgs) moved = backfill_page w ch msgs moved)
   \<and> (\<forall>e\<in>set (w_trace (fst (backfillGuild w guild))).
        e \<in> set (w_trace w) \<or> guild_relocation e)"
proof -
  have "backfillGuild w guild = (fst (backfillGuild w guild), snd (backfillGuild w guild))"
    by simp
  then have "extends guild_relocation w (fst (backfillGuild w guild))"
    unfolding backfillGuild_def by (rule backfill_channels_extends)
  from extends_set[OF this] show ?thesis
    by (simp add: messageCreate_def fresh_def)
qed

theorem bots_are_ignored_witness:
  "u_bot (m_author h2) \<and> fresh h2
   \<and> match_global URL_REGEX (m_content h2) = [str ''https://youtu.be/two'']
   \<and> messageCreate history_world h2 = (history_world, Resolved ())
   \<and> backfill_page history_world general (h2 # [h3, h4]) 0
       = backfill_page history_world general [h3, h4] 0
   \<and> w_trace (fst (backfillGuild history_world (str ''g1''))) =
       [ChannelSend (str ''11111111111'')
          (embed_payload (buildLinkEmbed history_world youtube [str ''https://youtu.be/one''] alice
             (Some general) (Some 1768000000000))),
        MessageDelete h1, Sleep 1000]
   \<and> guild_relocation (MessageDelete h1) \<and> \<not> guild_relocation (MessageDelete h2)"
proof -
  note c = bots_are_ignored[of h2 history_world h2 general "[h3, h4]" 0 "str ''g1''"]
  have b: "u_bot (m_author h2)" by (simp add: h2_def other_bot_def)
  have u: "match_global URL_REGEX (m_content h2) = [str ''https://youtu.be/two'']"
    by (simp add: h2_def regex_eval)
  have t0: "w_trace history_world = []"
    by (simp add: history_world_def guild_world_def thread_world_def blank_world_def)
  have "MessageDelete h1 \<in> set (w_trace (fst (backfillGuild history_world (str ''g1''))))"
    unfolding history_guild_run by simp
  with c t0 have g: "guild_relocation (MessageDelete h1)" by auto
  have n: "\<not> guild_relocation (MessageDelete h2)"
    using b by (auto simp: guild_relocation_def summary_of_def)
  from c b history_fresh(2) u history_guild_run g n show ?thesis by simp
qed

section \<open>The thread consolidator\<close>



end
